theory Spec2Isabelle
  imports Main
begin

text \<open>
  The game-state engine of a tic-tac-toe application written with React, in its three
  source files: \<^verbatim>\<open>tic_tac_toe_frontend/src/App.js\<close>, which keeps the board as a flat
  array of nine squares, and two variants of it (the unnamed sources), which keep the
  board as an array of three rows and differ from each other only in their styling.
  The theory embeds, for both, the cells and boards, the outcome evaluators
  (\<^verbatim>\<open>calculateWinner\<close>), the opponent policies (\<^verbatim>\<open>getAIMove\<close>, \<^verbatim>\<open>aiMove\<close>), and the
  session with its handlers, effects and timers; then it states and proves what the
  specification claims about them.
\<close>

section \<open>Cells and the flat board of App.js\<close>

text \<open>
  A square of the board holds \<^verbatim>\<open>null\<close>, \<^verbatim>\<open>"X"\<close> or \<^verbatim>\<open>"O"\<close>. The empty square
  \<^verbatim>\<open>null\<close> is \<open>None\<close>; it is the only falsy value a square holds. The marks
  carry the names the variants give them (\<^verbatim>\<open>PLAYER_X = "X"\<close>, \<^verbatim>\<open>PLAYER_O = "O"\<close>).
  App.js keeps the nine squares in one array, row-major.
\<close>

datatype mark = PlayerX | PlayerO

type_synonym cell = "mark option"

type_synonym squares = "cell list"

text \<open>
  \<^verbatim>\<open>squares[i]\<close>: a read beyond the end of a JavaScript array gives \<^verbatim>\<open>undefined\<close>,
  which is falsy like \<^verbatim>\<open>null\<close>; every read of the source is under a truthiness test,
  so both are the empty cell here.
\<close>

definition at :: "squares \<Rightarrow> nat \<Rightarrow> cell" where
  "at sq i = (if i < length sq then sq ! i else None)"

text \<open>
  \<^verbatim>\<open>copy[i] = v\<close>: a write within the array replaces the element; a write beyond the end
  extends the array, the skipped positions being holes, which read as \<^verbatim>\<open>undefined\<close>. (The
  board renders one button per square, so the handlers receive indices within the
  array.)
\<close>

definition put :: "squares \<Rightarrow> nat \<Rightarrow> cell \<Rightarrow> squares" where
  "put sq i v = (if i < length sq then sq[i := v] else sq @ replicate (i - length sq) None @ [v])"

text \<open>\<^verbatim>\<open>Array(9).fill(null)\<close>\<close>

definition emptyBoard :: squares where
  "emptyBoard = replicate 9 None"

section \<open>App.js: calculateWinner\<close>

definition lines :: "(nat \<times> nat \<times> nat) list" where
  "lines = [(0, 1, 2), (3, 4, 5), (6, 7, 8),
            (0, 3, 6), (1, 4, 7), (2, 5, 8),
            (0, 4, 8), (2, 4, 6)]"

text \<open>The \<^verbatim>\<open>for (const [a, b, c] of lines)\<close> loop: the first complete line decides.\<close>

fun scanLines :: "squares \<Rightarrow> (nat \<times> nat \<times> nat) list \<Rightarrow> cell" where
  "scanLines sq [] = None"
| "scanLines sq ((a, b, c) # rest) =
     (if at sq a \<noteq> None \<and> at sq a = at sq b \<and> at sq a = at sq c then at sq a
      else scanLines sq rest)"

definition calculateWinner :: "squares \<Rightarrow> cell" where
  "calculateWinner sq = scanLines sq lines"

section \<open>App.js: getAIMove\<close>

text \<open>
  \<^verbatim>\<open>squares.map((val, i) => (val ? null : i)).filter((i) => i !== null)\<close>
\<close>

definition emptyIndices :: "squares \<Rightarrow> nat list" where
  "emptyIndices sq =
     map the (filter (\<lambda>i. i \<noteq> None)
       (map (\<lambda>(val, i). if val \<noteq> None then None else Some i) (zip sq [0..<length sq])))"

text \<open>
  The two \<^verbatim>\<open>for (const idx of emptyIndices)\<close> loops: copy the board, place the mark
  \<open>m\<close> on the copy, return the first index at which \<open>calculateWinner\<close> reports \<open>m\<close>.
\<close>

fun tryMark :: "mark \<Rightarrow> squares \<Rightarrow> nat list \<Rightarrow> nat option" where
  "tryMark m sq [] = None"
| "tryMark m sq (idx # rest) =
     (if calculateWinner (put sq idx (Some m)) = Some m then Some idx
      else tryMark m sq rest)"

text \<open>
  \<open>rnd\<close> is the value of \<^verbatim>\<open>Math.floor(Math.random() * emptyIndices.length)\<close>;
  \<^verbatim>\<open>Math.random()\<close> lies in \<open>[0, 1)\<close>, so \<open>rnd < length (emptyIndices sq)\<close> whenever
  the list is not empty. The AI is always \<^verbatim>\<open>"O"\<close>, its opponent \<^verbatim>\<open>"X"\<close>.
\<close>

definition getAIMove :: "squares \<Rightarrow> nat \<Rightarrow> nat option" where
  "getAIMove sq rnd =
     (let es = emptyIndices sq in
      case tryMark PlayerO sq es of
        Some idx \<Rightarrow> Some idx
      | None \<Rightarrow>
         (case tryMark PlayerX sq es of
            Some idx \<Rightarrow> Some idx
          | None \<Rightarrow>
             if 4 \<in> set es then Some 4
             else if es \<noteq> [] then Some (es ! rnd) else None))"

section \<open>App.js: the status effect\<close>

datatype status = Ongoing | Win | Draw

text \<open>
  The body of the effect \<^verbatim>\<open>useEffect(() => { const win = calculateWinner(board); ... }, [board])\<close>:
  the status and the winner it sets for a board.
\<close>

definition gameStatus :: "squares \<Rightarrow> status \<times> cell" where
  "gameStatus sq =
     (let win = calculateWinner sq in
      if win \<noteq> None then (Win, win)
      else if list_all (\<lambda>s. s \<noteq> None) sq then (Draw, None)
      else (Ongoing, None))"

section \<open>The variants: the two-dimensional board and its calculateWinner\<close>

text \<open>
  The variants keep the board as an array of \<^verbatim>\<open>BOARD_SIZE\<close> rows of \<^verbatim>\<open>BOARD_SIZE\<close> cells. It
  is built by \<^verbatim>\<open>Array(BOARD_SIZE).fill(null).map(() => Array(BOARD_SIZE).fill(EMPTY))\<close> and
  every update copies it row by row, so a board is always of that shape (\<open>wellFormed\<close>);
  the reads below stay within range on such a board.
\<close>

type_synonym grid = "cell list list"

definition BOARD_SIZE :: nat where
  "BOARD_SIZE = 3"

definition wellFormed :: "grid \<Rightarrow> bool" where
  "wellFormed board = (length board = BOARD_SIZE \<and> list_all (\<lambda>row. length row = BOARD_SIZE) board)"

definition emptyGrid :: grid where
  "emptyGrid = map (\<lambda>_. replicate BOARD_SIZE None) (replicate BOARD_SIZE None :: cell list)"

text \<open>What \<^verbatim>\<open>calculateWinner\<close> of the variants returns: \<^verbatim>\<open>"X"\<close>, \<^verbatim>\<open>"O"\<close>, \<^verbatim>\<open>"draw"\<close> or \<^verbatim>\<open>null\<close> (\<open>None\<close>).\<close>

datatype verdict = Won mark | DrawGame

definition checkLines :: "grid \<Rightarrow> cell list list" where
  "checkLines board =
     concat (map (\<lambda>i. [board ! i, map (\<lambda>row. row ! i) board]) [0..<BOARD_SIZE])
     @ [map (\<lambda>(row, i). row ! i) (zip board [0..<length board])]
     @ [map (\<lambda>(row, i). row ! (BOARD_SIZE - 1 - i)) (zip board [0..<length board])]"

text \<open>
  \<^verbatim>\<open>for (const line of checkLines) if (line.every(cell => cell && cell === line[0])) return line[0]\<close>:
  \<open>Some\<close> is the early return with the value of \<^verbatim>\<open>line[0]\<close>.
\<close>

fun scanCheckLines :: "cell list list \<Rightarrow> cell option" where
  "scanCheckLines [] = None"
| "scanCheckLines (line # rest) =
     (if list_all (\<lambda>cell. cell \<noteq> None \<and> cell = line ! 0) line then Some (line ! 0)
      else scanCheckLines rest)"

definition calculateWinner_grid :: "grid \<Rightarrow> verdict option" where
  "calculateWinner_grid board =
     (case scanCheckLines (checkLines board) of
        Some first \<Rightarrow> map_option Won first
      | None \<Rightarrow>
          if list_all (\<lambda>cell. cell \<noteq> None) (concat board) then Some DrawGame else None)"

section \<open>Lines of the board, as the specification counts them\<close>

text \<open>
  The three rows, the three columns and the two diagonals, by coordinates; a cell
  \<open>(r, c)\<close> of the flat board is at index \<open>3 * r + c\<close>.
\<close>

definition boardLines :: "(nat \<times> nat) list list" where
  "boardLines =
     map (\<lambda>r. map (\<lambda>c. (r, c)) [0..<3]) [0..<3]
     @ map (\<lambda>c. map (\<lambda>r. (r, c)) [0..<3]) [0..<3]
     @ [map (\<lambda>i. (i, i)) [0..<3], map (\<lambda>i. (i, 2 - i)) [0..<3]]"

definition hasLine :: "squares \<Rightarrow> mark \<Rightarrow> bool" where
  "hasLine sq m = list_ex (list_all (\<lambda>(r, c). sq ! (3 * r + c) = Some m)) boardLines"

definition hasLine_grid :: "grid \<Rightarrow> mark \<Rightarrow> bool" where
  "hasLine_grid board m = list_ex (list_all (\<lambda>(r, c). board ! r ! c = Some m)) boardLines"

text \<open>A line of index triples, and a line of cells, all holding the mark \<open>m\<close>.\<close>

definition complete :: "squares \<Rightarrow> mark \<Rightarrow> nat \<times> nat \<times> nat \<Rightarrow> bool" where
  "complete sq m l = (case l of (a, b, c) \<Rightarrow> at sq a = Some m \<and> at sq b = Some m \<and> at sq c = Some m)"

definition allMark :: "mark \<Rightarrow> cell list \<Rightarrow> bool" where
  "allMark m line = list_all (\<lambda>cell. cell = Some m) line"

definition other :: "mark \<Rightarrow> mark" where
  "other m = (case m of PlayerX \<Rightarrow> PlayerO | PlayerO \<Rightarrow> PlayerX)"

definition full :: "squares \<Rightarrow> bool" where
  "full sq = list_all (\<lambda>c. c \<noteq> None) sq"

section \<open>The variants: aiMove\<close>

text \<open>
  The nested \<^verbatim>\<open>for\<close> loops collect the coordinates of the empty cells, row by row;
  \<open>rnd\<close> is the value of \<^verbatim>\<open>Math.floor(Math.random() * emptySquares.length)\<close>.
\<close>

definition emptySquares :: "grid \<Rightarrow> (nat \<times> nat) list" where
  "emptySquares board =
     concat (map (\<lambda>i. concat (map (\<lambda>j. if board ! i ! j = None then [(i, j)] else [])
                                  [0..<BOARD_SIZE]))
                 [0..<BOARD_SIZE])"

definition aiMove :: "grid \<Rightarrow> nat \<Rightarrow> (nat \<times> nat) option" where
  "aiMove board rnd =
     (let emptySquares = emptySquares board in
      if length emptySquares = 0 then None else Some (emptySquares ! rnd))"

section \<open>The opponent policy, as the specification words it\<close>

text \<open>
  The board model's \<open>withMark\<close>: a new board identical except for the cell, refused
  (\<open>None\<close>, the specification's \<open>IllegalCellError\<close>) when the cell is out of range or not
  empty.
\<close>

definition withMark :: "squares \<Rightarrow> nat \<Rightarrow> mark \<Rightarrow> squares option" where
  "withMark sq i m = (if i < length sq \<and> sq ! i = None then Some (sq[i := Some m]) else None)"

text \<open>Placing \<open>m\<close> on cell \<open>i\<close> makes the evaluator report a win for \<open>m\<close>.\<close>

definition winsAt :: "squares \<Rightarrow> mark \<Rightarrow> nat \<Rightarrow> bool" where
  "winsAt sq m i = (case withMark sq i m of None \<Rightarrow> False | Some b \<Rightarrow> gameStatus b = (Win, Some m))"

text \<open>
  \<open>selectMove\<close> with its four steps: win now, block, center, random; the empty cells in
  row-major order, the cell \<open>(r, c)\<close> at index \<open>3 * r + c\<close>, the center at index 4.
\<close>

definition selectMove_spec :: "squares \<Rightarrow> mark \<Rightarrow> mark \<Rightarrow> nat \<Rightarrow> nat option" where
  "selectMove_spec sq ownMark opponentMark rnd =
     (let empties = filter (\<lambda>i. sq ! i = None) [0..<9] in
      if empties = [] then None
      else case find (winsAt sq ownMark) empties of
        Some i \<Rightarrow> Some i
      | None \<Rightarrow>
         (case find (winsAt sq opponentMark) empties of
            Some i \<Rightarrow> Some i
          | None \<Rightarrow> if sq ! 4 = None then Some 4 else Some (empties ! rnd)))"

section \<open>App.js: the session, its handlers and its effects\<close>

text \<open>
  The state of the \<^verbatim>\<open>App\<close> component (the theme apart), and the callbacks that
  \<^verbatim>\<open>setTimeout\<close> holds: each pending callback closes over the \<^verbatim>\<open>nextBoard\<close> it will set.
  The callbacks have the same delay, so they fire in the order they were scheduled.
\<close>

datatype mode = Two | Ai

record app =
  mode :: mode
  board :: squares
  isXNext :: bool
  status :: status
  winner :: cell
  timers :: "squares list"

text \<open>The component as it is mounted, in a mode.\<close>

definition initial :: "mode \<Rightarrow> app" where
  "initial m = \<lparr>mode = m, board = emptyBoard, isXNext = True, status = Ongoing, winner = None,
                timers = []\<rparr>"

text \<open>
  \<^verbatim>\<open>handleSquareClick(idx)\<close>: both early returns leave the state as it is; they are the
  rejection \<open>IllegalMoveError\<close> of the specification.
\<close>

datatype error = IllegalMoveError

definition handleSquareClick :: "nat \<Rightarrow> app \<Rightarrow> error + app" where
  "handleSquareClick idx s =
     (if at (board s) idx \<noteq> None \<or> status s \<noteq> Ongoing then Inl IllegalMoveError
      else if mode s = Ai \<and> \<not> isXNext s then Inl IllegalMoveError
      else Inr (s\<lparr>board := put (board s) idx (Some (if isXNext s then PlayerX else PlayerO)),
                  isXNext := \<not> isXNext s\<rparr>))"

definition handleReset :: "app \<Rightarrow> app" where
  "handleReset s = s\<lparr>board := emptyBoard, isXNext := True, status := Ongoing, winner := None\<rparr>"

definition handleModeChange :: "mode \<Rightarrow> app \<Rightarrow> app" where
  "handleModeChange m s = handleReset (s\<lparr>mode := m\<rparr>)"

text \<open>The callback given to \<^verbatim>\<open>setTimeout\<close>: \<^verbatim>\<open>setBoard(nextBoard); setIsXNext(true)\<close>.\<close>

definition timerCallback :: "squares \<Rightarrow> app \<Rightarrow> app" where
  "timerCallback nextBoard s = s\<lparr>board := nextBoard, isXNext := True\<rparr>"

text \<open>The status effect (dependency: the board) sets the status and the winner.\<close>

definition statusEffect :: "app \<Rightarrow> app" where
  "statusEffect s = (case gameStatus (board s) of (st, w) \<Rightarrow> s\<lparr>status := st, winner := w\<rparr>)"

text \<open>
  The AI move effect (dependencies: board, isXNext, mode, status): when it is the AI's
  turn it computes the move at once and schedules the callback that will set the board.
  It returns no cleanup: nothing ever calls \<^verbatim>\<open>clearTimeout\<close>.
\<close>

definition aiEffect :: "nat \<Rightarrow> app \<Rightarrow> app" where
  "aiEffect rnd s =
     (if mode s = Ai \<and> \<not> isXNext s \<and> status s = Ongoing then
        (case getAIMove (board s) rnd of
           None \<Rightarrow> s
         | Some move \<Rightarrow> s\<lparr>timers := timers s @ [put (board s) move (Some PlayerO)]\<rparr>)
      else s)"

text \<open>
  What React does after a handler or a callback has set a new board. Both effects run
  with the state of that render: the AI effect reads the status as it was rendered, the
  status that the status effect sets arrives with the next render. If the status
  changed, the AI effect (which depends on it) runs once more in that next render; the
  status effect does not, the board being the same. \<open>rnd\<close> holds the draws of the two
  runs.
\<close>

definition render :: "nat \<times> nat \<Rightarrow> app \<Rightarrow> app" where
  "render rnd s =
     (let queued = statusEffect s;
          s1 = (aiEffect (fst rnd) s)\<lparr>status := status queued, winner := winner queued\<rparr>
      in if status s1 \<noteq> status s then aiEffect (snd rnd) s1 else s1)"

text \<open>
  The events of a session: a click on square \<open>idx\<close>, the reset button, the mode
  selector, and the expiry of the oldest pending timer (nothing happens when none is
  pending).
\<close>

datatype event = Click nat | Reset | ModeChange mode | Timeout

definition step :: "nat \<times> nat \<Rightarrow> event \<Rightarrow> app \<Rightarrow> app" where
  "step rnd e s =
     (case e of
        Click idx \<Rightarrow> (case handleSquareClick idx s of Inl _ \<Rightarrow> s | Inr s' \<Rightarrow> render rnd s')
      | Reset \<Rightarrow> render rnd (handleReset s)
      | ModeChange m \<Rightarrow> render rnd (handleModeChange m s)
      | Timeout \<Rightarrow>
          (case timers s of
             [] \<Rightarrow> s
           | nextBoard # rest \<Rightarrow> render rnd (timerCallback nextBoard (s\<lparr>timers := rest\<rparr>))))"

fun run :: "app \<Rightarrow> ((nat \<times> nat) \<times> event) list \<Rightarrow> app" where
  "run s [] = s"
| "run s ((rnd, e) # rest) = run (step rnd e s) rest"

text \<open>
  A sequence of placements, each accepted: \<open>None\<close> as soon as a click is rejected.
\<close>

fun placeAll :: "((nat \<times> nat) \<times> nat) list \<Rightarrow> app \<Rightarrow> app option" where
  "placeAll [] s = Some s"
| "placeAll ((rnd, idx) # rest) s =
     (case handleSquareClick idx s of
        Inl _ \<Rightarrow> None
      | Inr _ \<Rightarrow> placeAll rest (step rnd (Click idx) s))"

section \<open>The variants: the session, its handlers and its effects\<close>

text \<open>
  The state of the variants' \<^verbatim>\<open>App\<close> component (fields \<^verbatim>\<open>mode\<close>, \<^verbatim>\<open>board\<close>, \<^verbatim>\<open>xIsNext\<close>,
  \<^verbatim>\<open>winner\<close>, \<^verbatim>\<open>aiThinking\<close>), and the timer \<^verbatim>\<open>aiDelay\<close> of the AI effect: when pending
  it closes over the board of the render that scheduled it (the winner of that render
  is \<^verbatim>\<open>null\<close>).
\<close>

datatype gmode = MODE_LOCAL | MODE_AI

record game =
  gmode :: gmode
  gboard :: grid
  xIsNext :: bool
  gwinner :: "verdict option"
  aiThinking :: bool
  aiDelay :: "grid option"

definition initial_grid :: "gmode \<Rightarrow> game" where
  "initial_grid m = \<lparr>gmode = m, gboard = emptyGrid, xIsNext = True, gwinner = None,
                     aiThinking = False, aiDelay = None\<rparr>"

definition resetGame :: "game \<Rightarrow> game" where
  "resetGame g = g\<lparr>gboard := emptyGrid, xIsNext := True, gwinner := None, aiThinking := False\<rparr>"

text \<open>
  \<^verbatim>\<open>prev.map(row => [...row])\<close> followed by \<^verbatim>\<open>next[i][j] = v\<close>: the rows are copied, the
  cell is written in the copy.
\<close>

definition setCell :: "grid \<Rightarrow> nat \<Rightarrow> nat \<Rightarrow> cell \<Rightarrow> grid" where
  "setCell prev i j v = (let next = map (\<lambda>row. row) prev in next[i := (next ! i)[j := v]])"

definition handleSquareClick_grid :: "nat \<Rightarrow> nat \<Rightarrow> game \<Rightarrow> error + game" where
  "handleSquareClick_grid i j g =
     (if gwinner g \<noteq> None \<or> gboard g ! i ! j \<noteq> None then Inl IllegalMoveError
      else Inr (g\<lparr>gboard := setCell (gboard g) i j (Some (if xIsNext g then PlayerX else PlayerO)),
                  xIsNext := \<not> xIsNext g\<rparr>))"

text \<open>
  The \<^verbatim>\<open>onClick\<close> of a square of the \<^verbatim>\<open>Board\<close> component, which is how
  \<^verbatim>\<open>handleSquareClick\<close> is reached:
  \<^verbatim>\<open>!disabled && !cell ? onSquareClick(i, j) : undefined\<close>, with
  \<^verbatim>\<open>disabled = !!winner || aiThinking || (mode === MODE_AI && !xIsNext)\<close>.
\<close>

definition squareOnClick :: "nat \<Rightarrow> nat \<Rightarrow> game \<Rightarrow> error + game" where
  "squareOnClick i j g =
     (let disabled = (gwinner g \<noteq> None \<or> aiThinking g \<or> (gmode g = MODE_AI \<and> \<not> xIsNext g)) in
      if \<not> disabled \<and> gboard g ! i ! j = None then handleSquareClick_grid i j g
      else Inl IllegalMoveError)"

text \<open>
  The effects. Each function takes the state \<open>cur\<close> of the render whose closure the effect
  reads, and the state \<open>u\<close> that the queued updates have produced so far.

  The winner effect (dependency: the board).
\<close>

definition winnerEffect :: "game \<Rightarrow> game \<Rightarrow> game" where
  "winnerEffect cur u =
     (let res = calculateWinner_grid (gboard cur) in
      if res \<noteq> None then u\<lparr>gwinner := res, aiThinking := False\<rparr> else u\<lparr>gwinner := res\<rparr>)"

text \<open>
  The AI effect (dependencies: mode, winner, xIsNext, board): it schedules the timer and
  returns the cleanup \<^verbatim>\<open>() => clearTimeout(aiDelay)\<close>, which React calls before the effect
  runs again and which retracts the timer.
\<close>

definition aiEffect_grid :: "game \<Rightarrow> game \<Rightarrow> game" where
  "aiEffect_grid cur u =
     (if gmode cur = MODE_AI \<and> gwinner cur = None \<and> \<not> xIsNext cur
      then u\<lparr>aiThinking := True, aiDelay := Some (gboard cur)\<rparr>
      else u)"

definition cleanup :: "game \<Rightarrow> game" where
  "cleanup u = u\<lparr>aiDelay := None\<rparr>"

text \<open>
  One render after the state went from \<open>prev\<close> to \<open>cur\<close>; \<open>boardSet\<close> tells whether
  \<^verbatim>\<open>setBoard\<close> was called (every call passes a new array, so the board dependency has
  changed). The cleanup of an effect whose dependencies changed runs first, then the
  effects in the order of the source: winner, AI, and the effect on the mode, which calls
  \<^verbatim>\<open>resetGame\<close>. The result is the state for the next render and whether that one has a
  new board.
\<close>

definition pass :: "game \<Rightarrow> bool \<Rightarrow> game \<Rightarrow> game \<times> bool" where
  "pass prev boardSet cur =
     (let aiDeps = (gmode cur \<noteq> gmode prev \<or> gwinner cur \<noteq> gwinner prev
                    \<or> xIsNext cur \<noteq> xIsNext prev \<or> boardSet);
          modeDeps = (gmode cur \<noteq> gmode prev);
          u0 = (if aiDeps then cleanup cur else cur);
          u1 = (if boardSet then winnerEffect cur u0 else u0);
          u2 = (if aiDeps then aiEffect_grid cur u1 else u1);
          u3 = (if modeDeps then resetGame u2 else u2)
      in (u3, modeDeps))"

text \<open>
  React renders again as long as a render's effects changed the state; \<open>settle\<close> follows
  the renders, at most \<open>n\<close> of them, and is \<open>None\<close> if the state has not settled by then.
\<close>

definition sameState :: "game \<Rightarrow> game \<Rightarrow> bool" where
  "sameState a b = (gmode a = gmode b \<and> gboard a = gboard b \<and> xIsNext a = xIsNext b
                    \<and> gwinner a = gwinner b \<and> aiThinking a = aiThinking b)"

fun settle :: "nat \<Rightarrow> game \<Rightarrow> bool \<Rightarrow> game \<Rightarrow> game option" where
  "settle 0 prev boardSet cur = None"
| "settle (Suc n) prev boardSet cur =
     (case pass prev boardSet cur of
        (nxt, boardSet') \<Rightarrow>
          if \<not> boardSet' \<and> sameState nxt cur then Some nxt
          else settle n cur boardSet' nxt)"

text \<open>
  The callback of the timer, for the closure board \<open>b\<close>:
  \<^verbatim>\<open>const move = aiMove(board); if (move && !winner) { setBoard(prev => ...); setXIsNext(true); } setAiThinking(false)\<close>.
  The result tells whether \<^verbatim>\<open>setBoard\<close> was called.
\<close>

definition timerCallback_grid :: "grid \<Rightarrow> nat \<Rightarrow> game \<Rightarrow> game \<times> bool" where
  "timerCallback_grid b rnd g =
     (case aiMove b rnd of
        Some (i, j) \<Rightarrow>
          (g\<lparr>gboard := setCell (gboard g) i j (Some PlayerO), xIsNext := True,
              aiThinking := False, aiDelay := None\<rparr>, True)
      | None \<Rightarrow> (g\<lparr>aiThinking := False, aiDelay := None\<rparr>, False))"

text \<open>
  The events of a session of the variants. The reset and mode buttons are rendered with
  \<^verbatim>\<open>disabled={aiThinking}\<close>; a click on the active mode's button sets the state it has and
  causes no render. The timer's draw comes with its expiry.
\<close>

datatype gevent = GClick nat nat | GReset | GSetMode gmode | GTimeout nat

definition gstep :: "gevent \<Rightarrow> game \<Rightarrow> game option" where
  "gstep e g =
     (case e of
        GClick i j \<Rightarrow>
          (case squareOnClick i j g of Inl _ \<Rightarrow> Some g | Inr g' \<Rightarrow> settle 4 g True g')
      | GReset \<Rightarrow> if aiThinking g then Some g else settle 4 g True (resetGame g)
      | GSetMode m \<Rightarrow>
          if aiThinking g \<or> m = gmode g then Some g else settle 4 g False (g\<lparr>gmode := m\<rparr>)
      | GTimeout rnd \<Rightarrow>
          (case aiDelay g of
             None \<Rightarrow> Some g
           | Some b \<Rightarrow>
               (case timerCallback_grid b rnd g of (g', boardSet) \<Rightarrow> settle 4 g boardSet g')))"

section \<open>The conditions of a rejected placement\<close>

text \<open>
  The three conditions under which the specification has \<open>placeMark\<close> reject: the outcome
  is not in-progress, the target cell is not empty, or the mode is vs-automated and it
  is not the human player's (X's) turn; for App.js and for the variants.
\<close>

definition rejects :: "nat \<Rightarrow> app \<Rightarrow> bool" where
  "rejects idx s =
     (status s \<noteq> Ongoing \<or> at (board s) idx \<noteq> None \<or> (mode s = Ai \<and> \<not> isXNext s))"

definition rejects_grid :: "nat \<Rightarrow> nat \<Rightarrow> game \<Rightarrow> bool" where
  "rejects_grid i j g =
     (gwinner g \<noteq> None \<or> gboard g ! i ! j \<noteq> None \<or> (gmode g = MODE_AI \<and> \<not> xIsNext g))"

text \<open>The condition under which the AI effect of the variants schedules its timer.\<close>

definition aiTurn :: "game \<Rightarrow> bool" where
  "aiTurn cur = (gmode cur = MODE_AI \<and> gwinner cur = None \<and> \<not> xIsNext cur)"

section \<open>App.js: boards as arrays on a heap\<close>

text \<open>
  JavaScript arrays are objects: two variables can hold the same array, and
  \<^verbatim>\<open>copy[idx] = v\<close> writes into the array itself. To see which arrays the code writes,
  the boards live on a heap here: the list of the arrays allocated so far, an array's
  address being its position. \<^verbatim>\<open>squares.slice()\<close> and \<^verbatim>\<open>[...board]\<close> allocate a new array
  with the elements of the old one; an indexed assignment updates the array at its
  address.
\<close>

type_synonym addr = nat

type_synonym heap = "squares list"

definition slice :: "heap \<Rightarrow> addr \<Rightarrow> heap \<times> addr" where
  "slice h a = (h @ [h ! a], length h)"

definition store :: "heap \<Rightarrow> addr \<Rightarrow> nat \<Rightarrow> cell \<Rightarrow> heap" where
  "store h a i v = h[a := put (h ! a) i v]"

text \<open>
  The loops of \<^verbatim>\<open>getAIMove\<close> with their copies and writes, \<open>squares\<close> being the address
  of the board passed in; the result is the returned index and the heap afterwards.
  (The arrays of indices that \<^verbatim>\<open>map\<close> and \<^verbatim>\<open>filter\<close> build hold no cells and stay off
  this heap.)
\<close>

fun tryMark_heap :: "mark \<Rightarrow> addr \<Rightarrow> nat list \<Rightarrow> heap \<Rightarrow> nat option \<times> heap" where
  "tryMark_heap m squares [] h = (None, h)"
| "tryMark_heap m squares (idx # rest) h =
     (case slice h squares of
        (h1, copy) \<Rightarrow>
          (let h2 = store h1 copy idx (Some m) in
           if calculateWinner (h2 ! copy) = Some m then (Some idx, h2)
           else tryMark_heap m squares rest h2))"

definition getAIMove_heap :: "addr \<Rightarrow> nat \<Rightarrow> heap \<Rightarrow> nat option \<times> heap" where
  "getAIMove_heap squares rnd h =
     (let es = emptyIndices (h ! squares) in
      case tryMark_heap PlayerO squares es h of
        (Some idx, h1) \<Rightarrow> (Some idx, h1)
      | (None, h1) \<Rightarrow>
          (case tryMark_heap PlayerX squares es h1 of
             (Some idx, h2) \<Rightarrow> (Some idx, h2)
           | (None, h2) \<Rightarrow>
               (if 4 \<in> set es then Some 4 else if es \<noteq> [] then Some (es ! rnd) else None, h2)))"

text \<open>
  The placement of \<^verbatim>\<open>handleSquareClick\<close> and of the AI effect:
  \<^verbatim>\<open>const nextBoard = [...board]; nextBoard[idx] = mark\<close>, for the board at address \<open>b\<close>; the result is the address of
  \<^verbatim>\<open>nextBoard\<close>, which \<^verbatim>\<open>setBoard\<close> receives, and the heap afterwards.
\<close>

definition place_heap :: "addr \<Rightarrow> nat \<Rightarrow> mark \<Rightarrow> heap \<Rightarrow> addr \<times> heap" where
  "place_heap b idx m h =
     (case slice h b of (h1, nextBoard) \<Rightarrow> (nextBoard, store h1 nextBoard idx (Some m)))"

section \<open>The variants: boards as arrays of rows on a heap\<close>

text \<open>
  A board of the variants is an array that holds its rows, themselves arrays. The heap
  is a pair: the row arrays allocated so far, and the board arrays, each the list of
  the addresses of its rows. \<open>contents\<close> reads the board at an address as a value.
\<close>

type_synonym heap_grid = "cell list list \<times> addr list list"

definition contents :: "heap_grid \<Rightarrow> addr \<Rightarrow> grid" where
  "contents h b = map (\<lambda>a. fst h ! a) (snd h ! b)"

text \<open>\<^verbatim>\<open>prev.map(row => [...row])\<close>: every row is copied to a new array.\<close>

fun copyRows :: "addr list \<Rightarrow> cell list list \<Rightarrow> addr list \<times> cell list list" where
  "copyRows [] rs = ([], rs)"
| "copyRows (a # as) rs =
     (case copyRows as (rs @ [rs ! a]) of (bs, rs') \<Rightarrow> (length rs # bs, rs'))"

text \<open>
  The update that \<^verbatim>\<open>handleSquareClick\<close> and the timer's callback pass to \<^verbatim>\<open>setBoard\<close>:
  \<^verbatim>\<open>const next = prev.map(row => [...row]); next[i][j] = v; return next\<close>, for the board
  at address \<open>prev\<close>; the result is the address of \<^verbatim>\<open>next\<close> and the heap afterwards.
\<close>

definition setCell_heap :: "addr \<Rightarrow> nat \<Rightarrow> nat \<Rightarrow> cell \<Rightarrow> heap_grid \<Rightarrow> addr \<times> heap_grid" where
  "setCell_heap prev i j v h =
     (case copyRows (snd h ! prev) (fst h) of
        (next, rs) \<Rightarrow>
          (length (snd h), (rs[next ! i := (rs ! (next ! i))[j := v]], snd h @ [next])))"

section \<open>Games against the AI of App.js\<close>









section \<open>Example boards and sessions\<close>

text \<open>Boards and sessions at which the theorems are instantiated.\<close>

text \<open>A board where the top row is all X, and no line is all O.\<close>

definition topRowX :: squares where
  "topRowX = [Some PlayerX, Some PlayerX, Some PlayerX,
              Some PlayerO, Some PlayerO, None,
              None, None, None]"

definition topRowX_grid :: grid where
  "topRowX_grid =
     [[Some PlayerX, Some PlayerX, Some PlayerX],
      [Some PlayerO, Some PlayerO, None],
      [None, None, None]]"

text \<open>A board where the top row is all X and the middle row all O.\<close>

definition bothRows :: squares where
  "bothRows = [Some PlayerX, Some PlayerX, Some PlayerX,
               Some PlayerO, Some PlayerO, Some PlayerO,
               None, None, None]"

definition bothRows_grid :: grid where
  "bothRows_grid =
     [[Some PlayerX, Some PlayerX, Some PlayerX],
      [Some PlayerO, Some PlayerO, Some PlayerO],
      [None, None, None]]"

text \<open>A board where the middle row is all O and the bottom row all X.\<close>

definition twoRows_grid :: grid where
  "twoRows_grid =
     [[Some PlayerX, Some PlayerO, Some PlayerX],
      [Some PlayerO, Some PlayerO, Some PlayerO],
      [Some PlayerX, Some PlayerX, Some PlayerX]]"

text \<open>A full board without a complete line.\<close>

definition drawn_grid :: grid where
  "drawn_grid =
     [[Some PlayerX, Some PlayerO, Some PlayerX],
      [Some PlayerX, Some PlayerO, Some PlayerO],
      [Some PlayerO, Some PlayerX, Some PlayerX]]"

text \<open>
  A board where X holds squares 0 and 1 and threatens square 2, O holds squares 3 and
  4 and can win on square 5.
\<close>

definition midGame :: squares where
  "midGame = [Some PlayerX, Some PlayerX, None,
              Some PlayerO, Some PlayerO, None,
              None, None, None]"

definition midGame_grid :: grid where
  "midGame_grid =
     [[Some PlayerX, Some PlayerX, None],
      [Some PlayerO, Some PlayerO, None],
      [None, None, None]]"

text \<open>A board where O holds squares 0 and 1 and can win on square 2.\<close>

definition oCanWin_grid :: grid where
  "oCanWin_grid =
     [[Some PlayerO, Some PlayerO, None],
      [Some PlayerX, Some PlayerX, None],
      [None, None, None]]"

text \<open>Sessions of two players on the board \<open>midGame\<close>, X to move.\<close>

definition midSession :: app where
  "midSession = \<lparr>mode = Two, board = midGame, isXNext = True, status = Ongoing, winner = None,
                  timers = []\<rparr>"

definition midSession_grid :: game where
  "midSession_grid = \<lparr>gmode = MODE_LOCAL, gboard = midGame_grid, xIsNext = True, gwinner = None,
                       aiThinking = False, aiDelay = None\<rparr>"

section \<open>Boards written out\<close>

lemma length9E:
  assumes "length (sq :: 'a list) = 9"
  obtains a0 a1 a2 a3 a4 a5 a6 a7 a8 where "sq = [a0, a1, a2, a3, a4, a5, a6, a7, a8]"
proof -
  from assms obtain a0 a1 a2 a3 a4 a5 a6 a7 a8 r where "sq = a0 # a1 # a2 # a3 # a4 # a5 # a6 # a7 # a8 # r"
    by (auto simp: length_Suc_conv eval_nat_numeral)
  with assms that show thesis by simp
qed

lemma length3E:
  assumes "length (xs :: 'a list) = 3"
  obtains a0 a1 a2 where "xs = [a0, a1, a2]"
proof -
  from assms obtain a0 a1 a2 r where "xs = a0 # a1 # a2 # r"
    by (auto simp: length_Suc_conv eval_nat_numeral)
  with assms that show thesis by simp
qed

lemma wellFormedE:
  assumes "wellFormed bd"
  obtains a0 a1 a2 a3 a4 a5 a6 a7 a8 where "bd = [[a0, a1, a2], [a3, a4, a5], [a6, a7, a8]]"
proof -
  from assms have l: "length bd = 3" by (simp add: wellFormed_def BOARD_SIZE_def)
  then obtain r0 r1 r2 where b: "bd = [r0, r1, r2]" by (rule length3E)
  with assms have "length r0 = 3" "length r1 = 3" "length r2 = 3"
    by (simp_all add: wellFormed_def BOARD_SIZE_def)
  then show thesis
    using b that by (elim length3E) simp
qed

lemma emptyIndices_filter:
  "emptyIndices sq = filter (\<lambda>i. sq ! i = None) [0..<length sq]"
proof -
  have "map the (filter (\<lambda>i. i \<noteq> None)
          (map (\<lambda>(val, i). if val \<noteq> None then None else Some i) (zip xs ns)))
        = map snd (filter (\<lambda>(val, i). val = None) (zip xs ns))" for xs :: squares and ns :: "nat list"
    by (induction xs arbitrary: ns) (auto split: list.splits simp: zip_Cons1)
  moreover have "map snd (filter (\<lambda>(val, i). val = None) (zip sq [0..<length sq]))
        = filter (\<lambda>i. sq ! i = None) [0..<length sq]"
  proof (induction sq rule: rev_induct)
    case Nil
    then show ?case by simp
  next
    case (snoc x xs)
    have "filter (\<lambda>i. (xs @ [x]) ! i = None) [0..<length xs]
        = filter (\<lambda>i. xs ! i = None) [0..<length xs]"
      by (rule filter_cong) (auto simp: nth_append)
    with snoc show ?case by (simp add: nth_append)
  qed
  ultimately show ?thesis by (simp add: emptyIndices_def)
qed

section \<open>The first complete line\<close>

lemma scanLines_Some: "scanLines sq ls = Some m \<Longrightarrow> list_ex (complete sq m) ls"
  by (induction sq ls rule: scanLines.induct) (auto simp: complete_def split: if_splits)

lemma line_complete:
  "(at sq a \<noteq> None \<and> at sq a = at sq b \<and> at sq a = at sq c)
   = (complete sq PlayerX (a, b, c) \<or> complete sq PlayerO (a, b, c))"
proof (cases "at sq a")
  case None
  then show ?thesis by (simp add: complete_def)
next
  case (Some m)
  then show ?thesis by (cases m) (auto simp: complete_def)
qed

lemma scanLines_None:
  "(scanLines sq ls = None)
   = (\<not> list_ex (complete sq PlayerX) ls \<and> \<not> list_ex (complete sq PlayerO) ls)"
proof (induction ls)
  case Nil
  then show ?case by simp
next
  case (Cons l rest)
  obtain a b c where l: "l = (a, b, c)" by (cases l)
  show ?case
  proof (cases "at sq a \<noteq> None \<and> at sq a = at sq b \<and> at sq a = at sq c")
    case True
    have "scanLines sq (l # rest) = at sq a"
      by (simp only: l scanLines.simps if_P [OF True])
    with True have "scanLines sq (l # rest) \<noteq> None" by auto
    moreover from True have "complete sq PlayerX l \<or> complete sq PlayerO l"
      by (simp only: l line_complete)
    ultimately show ?thesis by auto
  next
    case False
    have "scanLines sq (l # rest) = scanLines sq rest"
      by (simp only: l scanLines.simps if_not_P [OF False])
    moreover from False have "\<not> complete sq PlayerX l" "\<not> complete sq PlayerO l"
      unfolding l line_complete by simp_all
    ultimately show ?thesis using Cons by simp
  qed
qed

lemma upt3: "[0..<3] = [0, 1, 2]" by (simp add: upt_rec)

lemma hasLine_lines: "length sq = 9 \<Longrightarrow> hasLine sq m = list_ex (complete sq m) lines"
  by (simp add: hasLine_def boardLines_def upt3 lines_def complete_def at_def)

lemma chain_swap:
  assumes "p2 \<Longrightarrow> q0 \<Longrightarrow> x2 = y0" "p1 \<Longrightarrow> q0 \<Longrightarrow> x1 = y0" "p2 \<Longrightarrow> q1 \<Longrightarrow> x2 = y1"
  shows "(if p0 then x0 else if p1 then x1 else if p2 then x2 else if q0 then y0 else if q1 then y1 else z)
       = (if p0 then x0 else if q0 then y0 else if p1 then x1 else if q1 then y1 else if p2 then x2 else z)"
  using assms by auto

lemma checkLines_explicit:
  "checkLines [[a0, a1, a2], [a3, a4, a5], [a6, a7, a8]] =
     [[a0, a1, a2], [a0, a3, a6], [a3, a4, a5], [a1, a4, a7], [a6, a7, a8], [a2, a5, a8],
      [a0, a4, a8], [a2, a4, a6]]"
  by (simp add: checkLines_def BOARD_SIZE_def upt3)

lemma calculateWinner_explicit:
  "calculateWinner [a0, a1, a2, a3, a4, a5, a6, a7, a8] =
    (if a0 \<noteq> None \<and> a0 = a1 \<and> a0 = a2 then a0
     else if a3 \<noteq> None \<and> a3 = a4 \<and> a3 = a5 then a3
     else if a6 \<noteq> None \<and> a6 = a7 \<and> a6 = a8 then a6
     else if a0 \<noteq> None \<and> a0 = a3 \<and> a0 = a6 then a0
     else if a1 \<noteq> None \<and> a1 = a4 \<and> a1 = a7 then a1
     else if a2 \<noteq> None \<and> a2 = a5 \<and> a2 = a8 then a2
     else if a0 \<noteq> None \<and> a0 = a4 \<and> a0 = a8 then a0
     else if a2 \<noteq> None \<and> a2 = a4 \<and> a2 = a6 then a2
     else None)"
  by (simp add: calculateWinner_def lines_def at_def split del: if_split cong: if_cong)

lemma every_allMark:
  "line \<noteq> [] \<Longrightarrow>
   list_all (\<lambda>cell. cell \<noteq> None \<and> cell = line ! 0) line = (allMark PlayerX line \<or> allMark PlayerO line)"
proof (cases "line ! 0")
  case None
  assume "line \<noteq> []"
  with None have "hd line = None" by (simp add: hd_conv_nth)
  with \<open>line \<noteq> []\<close> have "\<not> allMark PlayerX line" "\<not> allMark PlayerO line" "\<not> list_all (\<lambda>cell. cell \<noteq> None \<and> cell = line ! 0) line"
    by (cases line; simp add: allMark_def)+
  then show ?thesis by simp
next
  case (Some m)
  assume ne: "line \<noteq> []"
  have a: "list_all (\<lambda>cell. cell \<noteq> None \<and> cell = line ! 0) line = allMark m line"
    by (auto simp add: Some allMark_def list_all_iff)
  have b: "\<not> allMark (other m) line"
    using ne Some by (cases line; cases m; simp add: allMark_def other_def)
  show ?thesis using a b by (cases m) (auto simp: other_def)
qed

lemma scanCheckLines_Some:
  "scanCheckLines ls = Some first \<Longrightarrow> list_all (\<lambda>line. line \<noteq> []) ls \<Longrightarrow>
   \<exists>m. first = Some m \<and> list_ex (allMark m) ls"
proof (induction ls)
  case Nil
  then show ?case by simp
next
  case (Cons line rest)
  show ?case
  proof (cases "list_all (\<lambda>cell. cell \<noteq> None \<and> cell = line ! 0) line")
    case True
    with Cons.prems have f: "first = line ! 0" by simp
    from Cons.prems have ne: "line \<noteq> []" by simp
    from True ne have "line ! 0 \<noteq> None" by (cases line) auto
    then obtain m where m: "line ! 0 = Some m" by auto
    with True have "allMark m line" by (auto simp add: allMark_def list_all_iff)
    with f m show ?thesis by auto
  next
    case False
    with Cons show ?thesis by auto
  qed
qed

lemma scanCheckLines_None:
  "list_all (\<lambda>line. line \<noteq> []) ls \<Longrightarrow>
   (scanCheckLines ls = None) = (\<not> list_ex (allMark PlayerX) ls \<and> \<not> list_ex (allMark PlayerO) ls)"
proof (induction ls)
  case Nil
  then show ?case by simp
next
  case (Cons line rest)
  then have ne: "line \<noteq> []" by simp
  show ?case
  proof (cases "list_all (\<lambda>cell. cell \<noteq> None \<and> cell = line ! 0) line")
    case True
    then have "scanCheckLines (line # rest) \<noteq> None" by simp
    moreover from True have "allMark PlayerX line \<or> allMark PlayerO line"
      by (simp only: every_allMark [OF ne])
    ultimately show ?thesis by auto
  next
    case False
    then have "scanCheckLines (line # rest) = scanCheckLines rest" by simp
    moreover from False have "\<not> allMark PlayerX line" "\<not> allMark PlayerO line"
      unfolding every_allMark [OF ne] by simp_all
    ultimately show ?thesis using Cons by simp
  qed
qed

lemma hasLine_grid_checkLines:
  "wellFormed bd \<Longrightarrow> hasLine_grid bd m = list_ex (allMark m) (checkLines bd)"
  by (erule wellFormedE)
     (auto simp add: hasLine_grid_def boardLines_def upt3 checkLines_explicit allMark_def)

lemma checkLines_nonempty: "wellFormed bd \<Longrightarrow> list_all (\<lambda>line. line \<noteq> []) (checkLines bd)"
  by (erule wellFormedE) (simp add: checkLines_explicit)

lemma every3:
  "list_all (\<lambda>cell. cell \<noteq> None \<and> cell = x) [x, y, z] = (x \<noteq> None \<and> x = y \<and> x = z)"
  by auto

lemma scanCheckLines_explicit:
  "scanCheckLines [[a0, a1, a2], [a0, a3, a6], [a3, a4, a5], [a1, a4, a7], [a6, a7, a8], [a2, a5, a8],
      [a0, a4, a8], [a2, a4, a6]] =
    (if a0 \<noteq> None \<and> a0 = a1 \<and> a0 = a2 then Some a0
     else if a0 \<noteq> None \<and> a0 = a3 \<and> a0 = a6 then Some a0
     else if a3 \<noteq> None \<and> a3 = a4 \<and> a3 = a5 then Some a3
     else if a1 \<noteq> None \<and> a1 = a4 \<and> a1 = a7 then Some a1
     else if a6 \<noteq> None \<and> a6 = a7 \<and> a6 = a8 then Some a6
     else if a2 \<noteq> None \<and> a2 = a5 \<and> a2 = a8 then Some a2
     else if a0 \<noteq> None \<and> a0 = a4 \<and> a0 = a8 then Some a0
     else if a2 \<noteq> None \<and> a2 = a4 \<and> a2 = a6 then Some a2
     else None)"
  by (simp only: scanCheckLines.simps every3 nth_Cons_0)

lemma lift_step:
  "(p \<Longrightarrow> x \<noteq> None) \<Longrightarrow>
   (case r of None \<Rightarrow> None | Some m \<Rightarrow> Some (Some m)) = R \<Longrightarrow>
   (case (if p then x else r) of None \<Rightarrow> None | Some m \<Rightarrow> Some (Some m))
   = (if p then Some x else R)"
  by auto

lemma lift_chain:
  "(case (if a0 \<noteq> None \<and> a0 = a1 \<and> a0 = a2 then a0
     else if a3 \<noteq> None \<and> a3 = a4 \<and> a3 = a5 then a3
     else if a6 \<noteq> None \<and> a6 = a7 \<and> a6 = a8 then a6
     else if a0 \<noteq> None \<and> a0 = a3 \<and> a0 = a6 then a0
     else if a1 \<noteq> None \<and> a1 = a4 \<and> a1 = a7 then a1
     else if a2 \<noteq> None \<and> a2 = a5 \<and> a2 = a8 then a2
     else if a0 \<noteq> None \<and> a0 = a4 \<and> a0 = a8 then a0
     else if a2 \<noteq> None \<and> a2 = a4 \<and> a2 = a6 then a2
     else None) of None \<Rightarrow> None | Some m \<Rightarrow> Some (Some (m::mark)))
   = (if a0 \<noteq> None \<and> a0 = a1 \<and> a0 = a2 then Some a0
     else if a3 \<noteq> None \<and> a3 = a4 \<and> a3 = a5 then Some a3
     else if a6 \<noteq> None \<and> a6 = a7 \<and> a6 = a8 then Some a6
     else if a0 \<noteq> None \<and> a0 = a3 \<and> a0 = a6 then Some a0
     else if a1 \<noteq> None \<and> a1 = a4 \<and> a1 = a7 then Some a1
     else if a2 \<noteq> None \<and> a2 = a5 \<and> a2 = a8 then Some a2
     else if a0 \<noteq> None \<and> a0 = a4 \<and> a0 = a8 then Some a0
     else if a2 \<noteq> None \<and> a2 = a4 \<and> a2 = a6 then Some a2
     else None)"
  by ((rule lift_step, blast)+) simp

lemma scan_agree:
  "wellFormed bd \<Longrightarrow>
   scanCheckLines (checkLines bd) =
     (case calculateWinner (concat bd) of None \<Rightarrow> None | Some m \<Rightarrow> Some (Some m))"
proof (erule wellFormedE)
  fix a0 a1 a2 a3 a4 a5 a6 a7 a8 :: cell
  assume b: "bd = [[a0, a1, a2], [a3, a4, a5], [a6, a7, a8]]"
  have c: "concat bd = [a0, a1, a2, a3, a4, a5, a6, a7, a8]" by (simp add: b)
  show ?thesis
    unfolding c calculateWinner_explicit lift_chain unfolding b checkLines_explicit scanCheckLines_explicit
    by (rule chain_swap [symmetric]) auto
qed

section \<open>What the evaluators return\<close>

lemma calculateWinner_sound:
  "length sq = 9 \<Longrightarrow> calculateWinner sq = Some m \<Longrightarrow> hasLine sq m"
  by (simp add: hasLine_lines calculateWinner_def scanLines_Some)

lemma calculateWinner_None:
  "length sq = 9 \<Longrightarrow>
   (calculateWinner sq = None) = (\<not> hasLine sq PlayerX \<and> \<not> hasLine sq PlayerO)"
  by (simp add: hasLine_lines calculateWinner_def scanLines_None)

lemma other_cases: "m' = m \<or> m' = other m"
  by (cases m; cases m') (simp_all add: other_def)

lemma calculateWinner_complete:
  assumes "length sq = 9" "hasLine sq m" "\<not> hasLine sq (other m)"
  shows "calculateWinner sq = Some m"
proof -
  from assms(1,2) have "calculateWinner sq \<noteq> None"
    by (cases m) (simp_all add: calculateWinner_None)
  then obtain m' where m': "calculateWinner sq = Some m'" by auto
  with assms(1) have "hasLine sq m'" by (simp add: calculateWinner_sound)
  with assms(3) have "m' \<noteq> other m" by auto
  with other_cases [of m' m] m' show ?thesis by simp
qed

lemma gameStatus_cases:
  "gameStatus sq =
     (case calculateWinner sq of
        Some m \<Rightarrow> (Win, Some m)
      | None \<Rightarrow> if full sq then (Draw, None) else (Ongoing, None))"
  by (cases "calculateWinner sq") (simp_all add: gameStatus_def full_def)

lemma calculateWinner_grid_flat:
  "wellFormed bd \<Longrightarrow>
   calculateWinner_grid bd =
     (case calculateWinner (concat bd) of
        Some m \<Rightarrow> Some (Won m)
      | None \<Rightarrow> if full (concat bd) then Some DrawGame else None)"
  by (cases "calculateWinner (concat bd)")
     (simp_all add: calculateWinner_grid_def scan_agree full_def)

lemma hasLine_grid_flat:
  "wellFormed bd \<Longrightarrow> hasLine_grid bd m = hasLine (concat bd) m"
  by (erule wellFormedE) (simp add: hasLine_grid_def hasLine_def boardLines_def upt3)

lemma wellFormed_length: "wellFormed bd \<Longrightarrow> length (concat bd) = 9"
  by (erule wellFormedE) simp

lemmas board_eval =
  gameStatus_def calculateWinner_def lines_def at_def hasLine_def hasLine_grid_def boardLines_def
  upt3 other_def full_def wellFormed_def BOARD_SIZE_def calculateWinner_grid_def checkLines_def

text \<open>
  Claim C1, as the code has it. On every 3x3 board the status effect of App.js
  (\<open>gameStatus\<close>) and \<^verbatim>\<open>calculateWinner\<close> of the variants return exactly one of
  in-progress, win of a mark, or draw. A win of \<open>m\<close> is returned only if some row, column
  or diagonal holds \<open>m\<close> in all three cells, and it is returned whenever some line is all
  \<open>m\<close> and no line is all of the other mark; some win is returned exactly when some line
  is complete. Draw is returned exactly when no cell is empty and no line is complete,
  in-progress exactly when some cell is empty and no line is complete.
\<close>


theorem outcome_evaluator:
  assumes "length sq = 9" and "wellFormed bd"
  shows "(gameStatus sq = (Ongoing, None) \<or> gameStatus sq = (Draw, None)
           \<or> gameStatus sq = (Win, Some PlayerX) \<or> gameStatus sq = (Win, Some PlayerO))
       \<and> (gameStatus sq = (Win, Some m) \<longrightarrow> hasLine sq m)
       \<and> (hasLine sq m \<and> \<not> hasLine sq (other m) \<longrightarrow> gameStatus sq = (Win, Some m))
       \<and> ((fst (gameStatus sq) = Win) = (hasLine sq PlayerX \<or> hasLine sq PlayerO))
       \<and> ((gameStatus sq = (Draw, None)) = (full sq \<and> \<not> hasLine sq PlayerX \<and> \<not> hasLine sq PlayerO))
       \<and> ((gameStatus sq = (Ongoing, None)) = (\<not> full sq \<and> \<not> hasLine sq PlayerX \<and> \<not> hasLine sq PlayerO))
       \<and> (calculateWinner_grid bd = Some (Won m) \<longrightarrow> hasLine_grid bd m)
       \<and> (hasLine_grid bd m \<and> \<not> hasLine_grid bd (other m)
            \<longrightarrow> calculateWinner_grid bd = Some (Won m))
       \<and> ((\<exists>v. calculateWinner_grid bd = Some (Won v))
            = (hasLine_grid bd PlayerX \<or> hasLine_grid bd PlayerO))
       \<and> ((calculateWinner_grid bd = Some DrawGame)
            = (full (concat bd) \<and> \<not> hasLine_grid bd PlayerX \<and> \<not> hasLine_grid bd PlayerO))
       \<and> ((calculateWinner_grid bd = None)
            = (\<not> full (concat bd) \<and> \<not> hasLine_grid bd PlayerX \<and> \<not> hasLine_grid bd PlayerO))"
proof -
  note n = assms(1)
  note w = wellFormed_length [OF assms(2)]
  let ?c = "calculateWinner (concat bd)"
  have 1: "(gameStatus sq = (Win, Some m)) = (calculateWinner sq = Some m)"
    by (cases "calculateWinner sq") (simp_all add: gameStatus_cases)
  have 2: "(fst (gameStatus sq) = Win) = (calculateWinner sq \<noteq> None)"
    by (cases "calculateWinner sq") (simp_all add: gameStatus_cases)
  have 3: "(gameStatus sq = (Draw, None)) = (calculateWinner sq = None \<and> full sq)"
    by (cases "calculateWinner sq") (simp_all add: gameStatus_cases)
  have 4: "(gameStatus sq = (Ongoing, None)) = (calculateWinner sq = None \<and> \<not> full sq)"
    by (cases "calculateWinner sq") (simp_all add: gameStatus_cases)
  have 5: "(calculateWinner_grid bd = Some (Won v)) = (?c = Some v)" for v
    by (cases ?c) (simp_all add: calculateWinner_grid_flat [OF assms(2)])
  have 6: "(calculateWinner_grid bd = Some DrawGame) = (?c = None \<and> full (concat bd))"
    by (cases ?c) (simp_all add: calculateWinner_grid_flat [OF assms(2)])
  have 7: "(calculateWinner_grid bd = None) = (?c = None \<and> \<not> full (concat bd))"
    by (cases ?c) (simp_all add: calculateWinner_grid_flat [OF assms(2)])
  have 8: "(\<exists>v. calculateWinner_grid bd = Some (Won v)) = (?c \<noteq> None)"
    unfolding 5 by auto
  have c1: "gameStatus sq = (Ongoing, None) \<or> gameStatus sq = (Draw, None)
           \<or> gameStatus sq = (Win, Some PlayerX) \<or> gameStatus sq = (Win, Some PlayerO)"
  proof (cases "calculateWinner sq")
    case None
    then show ?thesis by (simp add: gameStatus_cases)
  next
    case (Some v)
    then show ?thesis by (cases v) (simp_all add: gameStatus_cases)
  qed
  have c2: "gameStatus sq = (Win, Some m) \<longrightarrow> hasLine sq m"
    unfolding 1 using calculateWinner_sound [OF n] by blast
  have c3: "hasLine sq m \<and> \<not> hasLine sq (other m) \<longrightarrow> gameStatus sq = (Win, Some m)"
    unfolding 1 using calculateWinner_complete [OF n] by blast
  have c4: "(fst (gameStatus sq) = Win) = (hasLine sq PlayerX \<or> hasLine sq PlayerO)"
    unfolding 2 by (simp add: calculateWinner_None [OF n])
  have c5: "(gameStatus sq = (Draw, None))
            = (full sq \<and> \<not> hasLine sq PlayerX \<and> \<not> hasLine sq PlayerO)"
    unfolding 3 calculateWinner_None [OF n] by blast
  have c6: "(gameStatus sq = (Ongoing, None))
            = (\<not> full sq \<and> \<not> hasLine sq PlayerX \<and> \<not> hasLine sq PlayerO)"
    unfolding 4 calculateWinner_None [OF n] by blast
  have c7: "calculateWinner_grid bd = Some (Won m) \<longrightarrow> hasLine_grid bd m"
    unfolding 5 hasLine_grid_flat [OF assms(2)] using calculateWinner_sound [OF w] by blast
  have c8: "hasLine_grid bd m \<and> \<not> hasLine_grid bd (other m)
            \<longrightarrow> calculateWinner_grid bd = Some (Won m)"
    unfolding 5 hasLine_grid_flat [OF assms(2)] using calculateWinner_complete [OF w] by blast
  have c9: "(\<exists>v. calculateWinner_grid bd = Some (Won v))
            = (hasLine_grid bd PlayerX \<or> hasLine_grid bd PlayerO)"
    unfolding 8 hasLine_grid_flat [OF assms(2)] by (simp add: calculateWinner_None [OF w])
  have c10: "(calculateWinner_grid bd = Some DrawGame)
            = (full (concat bd) \<and> \<not> hasLine_grid bd PlayerX \<and> \<not> hasLine_grid bd PlayerO)"
    unfolding 6 hasLine_grid_flat [OF assms(2)] calculateWinner_None [OF w] by blast
  have c11: "(calculateWinner_grid bd = None)
            = (\<not> full (concat bd) \<and> \<not> hasLine_grid bd PlayerX \<and> \<not> hasLine_grid bd PlayerO)"
    unfolding 7 hasLine_grid_flat [OF assms(2)] calculateWinner_None [OF w] by blast
  show ?thesis
    by (rule conjI c1 c2 c3 c4 c5 c6 c7 c8 c9 c10 c11)+
qed


text \<open>The theorem at a board where the top row is all X and no line is all O.\<close>

theorem outcome_evaluator_witness:
  "length topRowX = 9
   \<and> wellFormed topRowX_grid
   \<and> gameStatus topRowX
       = (Win, Some PlayerX)
   \<and> hasLine topRowX PlayerX
   \<and> \<not> hasLine topRowX
         (other PlayerX)
   \<and> calculateWinner_grid topRowX_grid
       = Some (Won PlayerX)
   \<and> hasLine_grid topRowX_grid PlayerX
   \<and> \<not> hasLine_grid topRowX_grid
         (other PlayerX)"
  using outcome_evaluator
    [of topRowX
        topRowX_grid
        PlayerX]
  by (simp add: topRowX_def topRowX_grid_def board_eval)

text \<open>
  The claim as stated, "a win of \<open>m\<close> if and only if some line is all \<open>m\<close>", fails on a
  board with the top row all X and the middle row all O: a line is all O, and both
  evaluators return the win of X, the line they scan first.
\<close>

theorem outcome_evaluator_counterexample:
  "hasLine bothRows PlayerO
   \<and> gameStatus bothRows
       = (Win, Some PlayerX)
   \<and> hasLine_grid bothRows_grid PlayerO
   \<and> calculateWinner_grid bothRows_grid
       = Some (Won PlayerX)"
  by (simp add: bothRows_def bothRows_grid_def board_eval)

section \<open>The two evaluators compared\<close>

text \<open>
  Claim C10, as the code has it. Under the row-major correspondence (\<open>concat\<close>), on every
  3x3 board and for every mark, \<^verbatim>\<open>calculateWinner\<close> of App.js returns the mark exactly when
  \<^verbatim>\<open>calculateWinner\<close> of the variants returns it, also when several lines are complete;
  and the status effect of App.js, which adds the full-board test to its
  \<^verbatim>\<open>calculateWinner\<close>, gives the classification the variants' function gives.
\<close>

theorem evaluators_agree:
  assumes "wellFormed bd"
  shows "(calculateWinner (concat bd) = Some m) = (calculateWinner_grid bd = Some (Won m))
       \<and> gameStatus (concat bd)
          = (case calculateWinner_grid bd of
               None \<Rightarrow> (Ongoing, None)
             | Some DrawGame \<Rightarrow> (Draw, None)
             | Some (Won v) \<Rightarrow> (Win, Some v))"
  by (cases "calculateWinner (concat bd)")
     (simp_all add: calculateWinner_grid_flat [OF assms] gameStatus_cases)

text \<open>The theorem at a board whose middle row is all O and whose bottom row is all X.\<close>

theorem evaluators_agree_witness:
  "wellFormed twoRows_grid
   \<and> calculateWinner (concat twoRows_grid)
       = Some PlayerO
   \<and> calculateWinner_grid twoRows_grid
       = Some (Won PlayerO)
   \<and> gameStatus (concat twoRows_grid)
       = (Win, Some PlayerO)"
  using evaluators_agree
    [of twoRows_grid
        PlayerO]
  by (simp add: twoRows_grid_def board_eval)

text \<open>
  The two functions named \<^verbatim>\<open>calculateWinner\<close> are not extensionally equal: on a full board
  without a complete line the one of App.js returns \<^verbatim>\<open>null\<close>, the one of the variants
  \<^verbatim>\<open>"draw"\<close>.
\<close>

theorem evaluators_differ_on_draw:
  "calculateWinner (concat drawn_grid)
     = None
   \<and> calculateWinner_grid drawn_grid
     = Some DrawGame"
  by (simp add: drawn_grid_def board_eval)

section \<open>The opponent policies\<close>

lemma tryMark_find:
  "tryMark m sq es = find (\<lambda>i. calculateWinner (put sq i (Some m)) = Some m) es"
  by (induction es) simp_all

lemma gameStatus_Win: "(gameStatus sq = (Win, Some m)) = (calculateWinner sq = Some m)"
  by (cases "calculateWinner sq") (simp_all add: gameStatus_cases)

lemma winsAt_empty:
  "i \<in> set (emptyIndices sq) \<Longrightarrow> winsAt sq m i = (calculateWinner (put sq i (Some m)) = Some m)"
  by (simp add: emptyIndices_filter winsAt_def withMark_def put_def gameStatus_Win)

lemma tryMark_spec: "tryMark m sq (emptyIndices sq) = find (winsAt sq m) (emptyIndices sq)"
  unfolding tryMark_find by (rule find_cong) (simp_all add: winsAt_empty)

lemma tryMark_mem: "tryMark m sq es = Some i \<Longrightarrow> i \<in> set es"
  by (induction es) (auto split: if_splits)

lemma emptyIndices_mem: "(i \<in> set (emptyIndices sq)) = (i < length sq \<and> sq ! i = None)"
  by (auto simp add: emptyIndices_filter)

lemma emptyIndices_Nil: "(emptyIndices sq = []) = full sq"
  by (auto simp add: emptyIndices_filter full_def filter_empty_conv list_all_length)

lemma getAIMove_spec:
  "length sq = 9 \<Longrightarrow> getAIMove sq rnd = selectMove_spec sq PlayerO PlayerX rnd"
proof -
  assume n: "length sq = 9"
  have e: "filter (\<lambda>i. sq ! i = None) [0..<9] = emptyIndices sq"
    by (simp add: emptyIndices_filter n)
  have c: "(4 \<in> set (emptyIndices sq)) = (sq ! 4 = None)"
    by (simp add: emptyIndices_mem n)
  show ?thesis
  proof (cases "emptyIndices sq = []")
    case True
    then show ?thesis
      by (simp add: getAIMove_def selectMove_spec_def e)
  next
    case False
    then show ?thesis
      unfolding getAIMove_def selectMove_spec_def e c tryMark_spec Let_def by auto
  qed
qed

lemma getAIMove_None: "(getAIMove sq rnd = None) = full sq"
proof (cases "emptyIndices sq = []")
  case True
  then show ?thesis by (simp add: getAIMove_def emptyIndices_Nil [symmetric])
next
  case False
  then show ?thesis
    by (simp add: getAIMove_def emptyIndices_Nil [symmetric] Let_def split: option.splits)
qed

lemma getAIMove_mem:
  assumes "getAIMove sq rnd = Some i" "rnd < length (emptyIndices sq)"
  shows "i \<in> set (emptyIndices sq)"
  using assms
  by (auto simp add: getAIMove_def Let_def dest: tryMark_mem split: option.splits if_splits)

lemma emptySquares_mem:
  "wellFormed bd \<Longrightarrow>
   ((i, j) \<in> set (emptySquares bd)) = (i < 3 \<and> j < 3 \<and> bd ! i ! j = None)"
  by (auto simp add: emptySquares_def BOARD_SIZE_def split: if_splits)

lemma emptySquares_Nil: "wellFormed bd \<Longrightarrow> (emptySquares bd = []) = full (concat bd)"
  by (erule wellFormedE) (auto simp add: emptySquares_def BOARD_SIZE_def upt3 full_def)

lemma hasLine_update_other:
  assumes "m' \<noteq> m" "i < length sq" "hasLine (sq[i := Some m]) m'"
  shows "hasLine sq m'"
proof -
  from assms(3) obtain l where l: "l \<in> set boardLines"
    and a: "\<forall>(r, c)\<in>set l. sq[i := Some m] ! (3 * r + c) = Some m'"
    by (auto simp add: hasLine_def list_ex_iff list_all_iff)
  have "sq ! (3 * r + c) = Some m'" if "(r, c) \<in> set l" for r c
  proof -
    from a that have v: "sq[i := Some m] ! (3 * r + c) = Some m'" by blast
    with assms(1,2) have "3 * r + c \<noteq> i" by auto
    with v show ?thesis by simp
  qed
  with l show ?thesis
    by (auto simp add: hasLine_def list_ex_iff list_all_iff)
qed

lemma winsAt_line:
  assumes "length sq = 9" "\<not> hasLine sq PlayerX" "\<not> hasLine sq PlayerO" "i < 9" "sq ! i = None"
  shows "winsAt sq m i = hasLine (sq[i := Some m]) m"
proof -
  let ?b = "sq[i := Some m]"
  have l: "length ?b = 9" using assms(1) by simp
  have w: "winsAt sq m i = (calculateWinner ?b = Some m)"
    using assms(1,4,5) by (simp add: winsAt_def withMark_def gameStatus_Win)
  have o: "other m \<noteq> m" by (cases m) (simp_all add: other_def)
  have "\<not> hasLine sq (other m)" using assms(2,3) by (cases m) (simp_all add: other_def)
  with hasLine_update_other [OF o, of i sq] assms(1,4) have n: "\<not> hasLine ?b (other m)"
    by auto
  show ?thesis
    unfolding w using calculateWinner_sound [OF l] calculateWinner_complete [OF l _ n] by blast
qed

lemma aiMove_None: "wellFormed bd \<Longrightarrow> (aiMove bd rnd = None) = full (concat bd)"
  by (simp add: aiMove_def Let_def emptySquares_Nil)

lemma aiMove_any:
  assumes "wellFormed bd" "i < 3" "j < 3" "bd ! i ! j = None"
  shows "\<exists>r. r < length (emptySquares bd) \<and> aiMove bd r = Some (i, j)"
proof -
  from assms have "(i, j) \<in> set (emptySquares bd)" by (simp add: emptySquares_mem)
  then obtain r where "r < length (emptySquares bd)" "emptySquares bd ! r = (i, j)"
    by (auto simp add: in_set_conv_nth)
  then show ?thesis by (auto simp add: aiMove_def Let_def)
qed

text \<open>
  Claim C4, as the code has it. \<^verbatim>\<open>getAIMove\<close> of App.js is the specification's
  \<open>selectMove\<close> for the marks O (own) and X (opponent): on every 3x3 board it returns none
  exactly when no cell is empty, and otherwise the first empty cell in row-major order
  whose occupation by O makes the evaluator report a win of O, else the first whose
  occupation by X makes it report a win of X, else the center if it is empty, else the
  empty cell that the random draw selects. \<^verbatim>\<open>aiMove\<close> of the variants returns none exactly
  when no cell is empty and otherwise only draws at random: every empty cell is the
  result for some draw.
\<close>

theorem opponent_policy:
  assumes "length sq = 9" and "wellFormed bd"
  shows "getAIMove sq rnd = selectMove_spec sq PlayerO PlayerX rnd
       \<and> (getAIMove sq rnd = None) = full sq
       \<and> (\<not> hasLine sq PlayerX \<and> \<not> hasLine sq PlayerO \<and> k < 9 \<and> sq ! k = None
            \<longrightarrow> winsAt sq m k = hasLine (sq[k := Some m]) m)
       \<and> (aiMove bd rnd = None) = full (concat bd)
       \<and> (i < 3 \<and> j < 3 \<and> bd ! i ! j = None
            \<longrightarrow> (\<exists>r. r < length (emptySquares bd) \<and> aiMove bd r = Some (i, j)))"
  using getAIMove_spec [OF assms(1)] getAIMove_None [of sq rnd] aiMove_None [OF assms(2)]
    aiMove_any [OF assms(2)] winsAt_line [OF assms(1)]
  by blast

text \<open>The theorem at a board where O can win at index 5 and X threatens at index 2.\<close>

theorem opponent_policy_witness:
  "length midGame = 9 \<and> wellFormed midGame_grid
   \<and> getAIMove midGame 0 = Some 5
   \<and> selectMove_spec midGame PlayerO PlayerX 0 = Some 5
   \<and> \<not> full midGame
   \<and> \<not> hasLine midGame PlayerX \<and> \<not> hasLine midGame PlayerO
   \<and> (5::nat) < 9 \<and> midGame ! 5 = None
   \<and> winsAt midGame PlayerO 5 \<and> hasLine (midGame[5 := Some PlayerO]) PlayerO
   \<and> (0::nat) < 3 \<and> (2::nat) < 3 \<and> midGame_grid ! 0 ! 2 = None
   \<and> (\<exists>r. r < length (emptySquares midGame_grid) \<and> aiMove midGame_grid r = Some (0, 2))"
proof -
  have l: "length midGame = 9"
    by (simp add: midGame_def)
  have w: "wellFormed midGame_grid"
    by (simp add: midGame_grid_def wellFormed_def BOARD_SIZE_def)
  have a: "getAIMove midGame 0 = Some 5"
    by code_simp
  have f: "\<not> full midGame"
    by (simp add: midGame_def full_def)
  have h: "\<not> hasLine midGame PlayerX" "\<not> hasLine midGame PlayerO" "midGame ! 5 = None"
    "hasLine (midGame[5 := Some PlayerO]) PlayerO"
    by (simp_all add: midGame_def board_eval)
  have c: "midGame_grid ! 0 ! 2 = None"
    by (simp add: midGame_grid_def)
  show ?thesis
    using opponent_policy [OF l w, of 0 5 PlayerO 0 2] a f h c l w by simp
qed

text \<open>
  The priority order fails for \<^verbatim>\<open>aiMove\<close>: O can win at \<open>(0, 2)\<close>, index 2, which is what
  \<open>selectMove\<close> returns; with the draw 4 \<^verbatim>\<open>aiMove\<close> returns the corner \<open>(2, 2)\<close>.
\<close>

theorem opponent_policy_counterexample:
  "4 < length (emptySquares oCanWin_grid)
   \<and> aiMove oCanWin_grid 4 = Some (2, 2)
   \<and> selectMove_spec (concat oCanWin_grid) PlayerO PlayerX 4 = Some 2"
  by code_simp

text \<open>
  Claim C9. On every 3x3 board, a move that \<^verbatim>\<open>getAIMove\<close> or \<^verbatim>\<open>aiMove\<close> returns is
  within the board and designates a cell that is empty in the board given, so that
  placing O there is a legal placement of the board model. The random draw is an index
  into the list of empty cells, as \<^verbatim>\<open>Math.floor(Math.random() * length)\<close> is.
\<close>

theorem policy_move_legal:
  assumes "length sq = 9" and "wellFormed bd"
  shows "(getAIMove sq rnd = Some i \<and> rnd < length (emptyIndices sq)
            \<longrightarrow> i < 9 \<and> sq ! i = None \<and> withMark sq i PlayerO = Some (put sq i (Some PlayerO)))
       \<and> (aiMove bd rnd = Some (r, c) \<and> rnd < length (emptySquares bd)
            \<longrightarrow> r < 3 \<and> c < 3 \<and> bd ! r ! c = None)"
proof -
  have "i < 9 \<and> sq ! i = None \<and> withMark sq i PlayerO = Some (put sq i (Some PlayerO))"
    if "getAIMove sq rnd = Some i" "rnd < length (emptyIndices sq)"
  proof -
    from that have "i \<in> set (emptyIndices sq)" by (rule getAIMove_mem)
    with assms(1) show ?thesis by (simp add: emptyIndices_mem withMark_def put_def)
  qed
  moreover have "r < 3 \<and> c < 3 \<and> bd ! r ! c = None"
    if "aiMove bd rnd = Some (r, c)" "rnd < length (emptySquares bd)"
  proof -
    from that(1) have "emptySquares bd ! rnd = (r, c)"
      by (simp add: aiMove_def Let_def split: if_splits)
    with nth_mem [OF that(2)] have "(r, c) \<in> set (emptySquares bd)"
      by simp
    with assms(2) show ?thesis by (simp add: emptySquares_mem)
  qed
  ultimately show ?thesis by blast
qed

text \<open>The theorem at the same board, with the draw 0.\<close>

theorem policy_move_legal_witness:
  "length midGame = 9 \<and> wellFormed midGame_grid
   \<and> getAIMove midGame 0 = Some 5 \<and> 0 < length (emptyIndices midGame)
   \<and> (5::nat) < 9 \<and> midGame ! 5 = None
   \<and> withMark midGame 5 PlayerO = Some (put midGame 5 (Some PlayerO))
   \<and> aiMove midGame_grid 0 = Some (0, 2) \<and> 0 < length (emptySquares midGame_grid)
   \<and> (0::nat) < 3 \<and> (2::nat) < 3 \<and> midGame_grid ! 0 ! 2 = None"
proof -
  have "getAIMove midGame 0 = Some 5" "0 < length (emptyIndices midGame)"
       "aiMove midGame_grid 0 = Some (0, 2)" "0 < length (emptySquares midGame_grid)"
    by code_simp+
  then show ?thesis
    using policy_move_legal [of midGame midGame_grid 0 5 0 2]
    by (simp add: midGame_def midGame_grid_def wellFormed_def BOARD_SIZE_def)
qed

section \<open>The sessions\<close>

lemma render_frame [simp]:
  "board (render rnd s) = board s" "isXNext (render rnd s) = isXNext s" "mode (render rnd s) = mode s"
  by (simp_all add: render_def aiEffect_def Let_def split: option.splits)

lemma render_status:
  "status (render rnd s) = fst (gameStatus (board s))" "winner (render rnd s) = snd (gameStatus (board s))"
  by (simp_all add: render_def aiEffect_def statusEffect_def Let_def split: option.splits prod.splits)

lemma render_idle:
  "isXNext s \<Longrightarrow> timers (render rnd s) = timers s"
  by (simp add: render_def aiEffect_def Let_def)

lemma at_put: "at (put sq i v) i = v"
  by (simp add: at_def put_def nth_append)

lemma put_neq: "at sq i = None \<Longrightarrow> put sq i (Some m) \<noteq> sq"
  using at_put [of sq i "Some m"] by auto

lemma handleSquareClick_rejects:
  "(handleSquareClick idx s = Inl IllegalMoveError) = rejects idx s"
  by (auto simp add: handleSquareClick_def rejects_def)

lemma handleSquareClick_accepts:
  "\<not> rejects idx s \<Longrightarrow>
   handleSquareClick idx s =
     Inr (s\<lparr>board := put (board s) idx (Some (if isXNext s then PlayerX else PlayerO)),
            isXNext := \<not> isXNext s\<rparr>)"
  by (auto simp add: handleSquareClick_def rejects_def)

lemma step_Click_same: "(step rnd (Click idx) s = s) = rejects idx s"
proof (cases "rejects idx s")
  case True
  then show ?thesis by (simp add: step_def handleSquareClick_rejects [symmetric])
next
  case False
  then have "at (board s) idx = None" by (simp add: rejects_def)
  then have "board (step rnd (Click idx) s) \<noteq> board s"
    using False by (simp add: step_def handleSquareClick_accepts put_neq)
  with False show ?thesis by auto
qed

lemma step_Click_turn:
  "\<not> rejects idx s \<Longrightarrow> isXNext (step rnd (Click idx) s) = (\<not> isXNext s)"
  by (simp add: step_def handleSquareClick_accepts)

lemma gameStatus_emptyBoard: "gameStatus emptyBoard = (Ongoing, None)"
  by code_simp

lemma render_reset: "render rnd (handleReset s) = handleReset s"
  by (simp add: render_def handleReset_def aiEffect_def statusEffect_def gameStatus_emptyBoard)

lemma step_Reset: "step rnd Reset s = handleReset s"
  by (simp add: step_def render_reset)

lemma step_ModeChange: "step rnd (ModeChange m) s = handleReset (s\<lparr>mode := m\<rparr>)"
  by (simp add: step_def handleModeChange_def render_reset)

lemma calculateWinner_grid_empty: "calculateWinner_grid emptyGrid = None"
  by code_simp

lemma pass_same_mode:
  assumes "gmode cur = gmode prev"
  shows "pass prev boardSet cur =
     (let res = calculateWinner_grid (gboard cur);
          aiDeps = (gwinner cur \<noteq> gwinner prev \<or> xIsNext cur \<noteq> xIsNext prev \<or> boardSet)
      in (cur\<lparr>gwinner := (if boardSet then res else gwinner cur),
               aiThinking := (if aiDeps \<and> aiTurn cur then True
                              else if boardSet \<and> res \<noteq> None then False else aiThinking cur),
               aiDelay := (if aiDeps then (if aiTurn cur then Some (gboard cur) else None)
                           else aiDelay cur)\<rparr>, False))"
  using assms
  by (cases cur) (simp add: pass_def cleanup_def winnerEffect_def aiEffect_grid_def aiTurn_def Let_def)


lemma pass_frame:
  assumes "gmode cur = gmode prev"
  shows "\<exists>T D. pass prev boardSet cur =
       (cur\<lparr>gwinner := (if boardSet then calculateWinner_grid (gboard cur) else gwinner cur),
             aiThinking := T, aiDelay := D\<rparr>, False)"
  unfolding pass_same_mode [OF assms] Let_def by blast

lemma pass_idle:
  assumes "gmode cur = gmode prev" "gwinner cur = gwinner prev" "xIsNext cur = xIsNext prev"
  shows "pass prev False cur = (cur, False)"
  using assms by (simp add: pass_same_mode)

lemma settle_same_mode:
  assumes "gmode cur = gmode prev"
  shows "\<exists>r. settle 4 prev boardSet cur = Some r \<and> gmode r = gmode cur \<and> gboard r = gboard cur
       \<and> xIsNext r = xIsNext cur
       \<and> gwinner r = (if boardSet then calculateWinner_grid (gboard cur) else gwinner cur)"
proof -
  let ?W = "if boardSet then calculateWinner_grid (gboard cur) else gwinner cur"
  obtain T1 D1 where p1: "pass prev boardSet cur = (cur\<lparr>gwinner := ?W, aiThinking := T1, aiDelay := D1\<rparr>, False)"
    using pass_frame [OF assms] by blast
  define n1 where "n1 = cur\<lparr>gwinner := ?W, aiThinking := T1, aiDelay := D1\<rparr>"
  have f1: "gmode n1 = gmode cur" "gboard n1 = gboard cur" "xIsNext n1 = xIsNext cur" "gwinner n1 = ?W"
    by (simp_all add: n1_def)
  have s4: "settle 4 prev boardSet cur = (if sameState n1 cur then Some n1 else settle 3 cur False n1)"
    by (simp add: eval_nat_numeral p1 n1_def)
  show ?thesis
  proof (cases "sameState n1 cur")
    case True
    with s4 f1 show ?thesis by simp
  next
    case False
    have "\<exists>T2 D2. pass cur False n1 = (n1\<lparr>aiThinking := T2, aiDelay := D2\<rparr>, False)"
      using pass_frame [OF f1(1), of False] by simp
    then obtain T2 D2 where p2: "pass cur False n1 = (n1\<lparr>aiThinking := T2, aiDelay := D2\<rparr>, False)"
      by blast
    define n2 where "n2 = n1\<lparr>aiThinking := T2, aiDelay := D2\<rparr>"
    have f2: "gmode n2 = gmode cur" "gboard n2 = gboard cur" "xIsNext n2 = xIsNext cur" "gwinner n2 = ?W"
      "gmode n2 = gmode n1" "gwinner n2 = gwinner n1" "xIsNext n2 = xIsNext n1"
      by (simp_all add: n2_def f1)
    have s3: "settle 3 cur False n1 = (if sameState n2 n1 then Some n2 else settle 2 n1 False n2)"
      by (simp add: eval_nat_numeral p2 n2_def)
    have s2: "settle 2 n1 False n2 = Some n2"
      by (simp add: eval_nat_numeral pass_idle [OF f2(5,6,7)] sameState_def)
    from False s4 s3 s2 f2 show ?thesis by simp
  qed
qed

lemma settle_reset:
  "settle 4 g True (resetGame g)
   = Some \<lparr>gmode = gmode g, gboard = emptyGrid, xIsNext = True, gwinner = None,
           aiThinking = False, aiDelay = None\<rparr>"
proof -
  have "pass g True (resetGame g) = ((resetGame g)\<lparr>aiDelay := None\<rparr>, False)"
    by (simp add: pass_same_mode resetGame_def aiTurn_def calculateWinner_grid_empty Let_def)
  then show ?thesis
    by (simp add: eval_nat_numeral sameState_def resetGame_def)
qed

lemma settle_setMode:
  assumes "m \<noteq> gmode g"
  shows "settle 4 g False (g\<lparr>gmode := m\<rparr>)
   = Some \<lparr>gmode = m, gboard = emptyGrid, xIsNext = True, gwinner = None,
           aiThinking = False, aiDelay = None\<rparr>"
proof -
  define g' where "g' = g\<lparr>gmode := m\<rparr>"
  define D where "D = (if m = MODE_AI \<and> gwinner g = None \<and> \<not> xIsNext g
                       then Some (gboard g) else None)"
  have p1: "pass g False g' = ((resetGame g')\<lparr>aiDelay := D\<rparr>, True)"
    using assms
    by (cases g)
       (simp add: g'_def D_def pass_def resetGame_def cleanup_def aiEffect_grid_def Let_def)
  define n1 where "n1 = (resetGame g')\<lparr>aiDelay := D\<rparr>"
  have n1: "n1 = resetGame n1" "gmode n1 = gmode g'"
    by (simp_all add: n1_def resetGame_def)
  have "pass g' True n1 = (n1\<lparr>aiDelay := None\<rparr>, False)"
    by (subst (1 2) n1(1))
       (simp add: pass_same_mode n1(2) resetGame_def aiTurn_def calculateWinner_grid_empty Let_def)
  then have "settle 3 g' True n1 = Some (n1\<lparr>aiDelay := None\<rparr>)"
    by (simp add: eval_nat_numeral sameState_def)
  then have "settle 4 g False g' = Some (n1\<lparr>aiDelay := None\<rparr>)"
    by (simp add: eval_nat_numeral p1 n1_def [symmetric])
  then show ?thesis
    by (simp add: g'_def n1_def resetGame_def)
qed

lemma squareOnClick_rejects:
  "rejects_grid i j g \<Longrightarrow> squareOnClick i j g = Inl IllegalMoveError"
  by (auto simp add: squareOnClick_def rejects_grid_def Let_def)

lemma squareOnClick_Inr:
  "squareOnClick i j g = Inr g' \<Longrightarrow>
   \<not> rejects_grid i j g \<and> \<not> aiThinking g
   \<and> g' = g\<lparr>gboard := setCell (gboard g) i j (Some (if xIsNext g then PlayerX else PlayerO)),
             xIsNext := \<not> xIsNext g\<rparr>"
  by (auto simp add: squareOnClick_def handleSquareClick_grid_def rejects_grid_def Let_def
      split: if_splits)

lemma squareOnClick_accepts:
  "\<not> rejects_grid i j g \<Longrightarrow> \<not> aiThinking g \<Longrightarrow>
   squareOnClick i j g =
     Inr (g\<lparr>gboard := setCell (gboard g) i j (Some (if xIsNext g then PlayerX else PlayerO)),
            xIsNext := \<not> xIsNext g\<rparr>)"
  by (auto simp add: squareOnClick_def handleSquareClick_grid_def rejects_grid_def Let_def)

lemma gstep_Click_rejected: "rejects_grid i j g \<Longrightarrow> gstep (GClick i j) g = Some g"
  by (simp add: gstep_def squareOnClick_rejects)

lemma gstep_Click_accepted:
  assumes "squareOnClick i j g = Inr g1"
  shows "\<exists>g'. gstep (GClick i j) g = Some g' \<and> gmode g' = gmode g \<and> gboard g' = gboard g1
       \<and> xIsNext g' = (\<not> xIsNext g) \<and> gwinner g' = calculateWinner_grid (gboard g1)"
proof -
  from squareOnClick_Inr [OF assms] have m: "gmode g1 = gmode g" "xIsNext g1 = (\<not> xIsNext g)"
    by simp_all
  from settle_same_mode [OF m(1), of True] m assms show ?thesis
    by (auto simp add: gstep_def)
qed

lemma setCell_neq:
  assumes "i < length b" "j < length (b ! i)" "b ! i ! j = None"
  shows "setCell b i j (Some m) \<noteq> b"
proof
  assume "setCell b i j (Some m) = b"
  then have "setCell b i j (Some m) ! i ! j = b ! i ! j" by simp
  with assms show False by (simp add: setCell_def)
qed

lemma placeAll_turn:
  "placeAll cs s = Some s' \<Longrightarrow> isXNext s' = (if even (length cs) then isXNext s else \<not> isXNext s)"
proof (induction cs arbitrary: s)
  case Nil
  then show ?case by simp
next
  case (Cons c cs)
  obtain rnd idx where c: "c = (rnd, idx)" by (cases c)
  from Cons.prems have a: "\<not> rejects idx s"
    by (auto simp add: c handleSquareClick_rejects [symmetric] split: sum.splits error.splits)
  with Cons.prems have "placeAll cs (step rnd (Click idx) s) = Some s'"
    by (simp add: c handleSquareClick_accepts)
  from Cons.IH [OF this] a show ?case
    by (simp add: step_Click_turn)
qed

lemma gstep_Click_changes:
  assumes "\<not> rejects_grid i j g" "\<not> aiThinking g" "i < length (gboard g)"
    "j < length (gboard g ! i)"
  shows "gstep (GClick i j) g \<noteq> Some g"
proof -
  let ?g1 = "g\<lparr>gboard := setCell (gboard g) i j (Some (if xIsNext g then PlayerX else PlayerO)),
              xIsNext := \<not> xIsNext g\<rparr>"
  from assms(1) have e: "gboard g ! i ! j = None" by (simp add: rejects_grid_def)
  from gstep_Click_accepted [OF squareOnClick_accepts [OF assms(1,2)]]
  obtain g' where g': "gstep (GClick i j) g = Some g'" "gboard g' = gboard ?g1"
    by blast
  from setCell_neq [OF assms(3,4) e] have "gboard ?g1 \<noteq> gboard g" by simp
  with g' show ?thesis by auto
qed

text \<open>
  Claim C2. In App.js, \<^verbatim>\<open>handleSquareClick\<close> returns early, and the click leaves the session
  exactly as it was, if and only if the status is not ongoing, or the target cell is
  not empty, or the mode is vs-AI and it is not X's turn; in every other case the click
  changes the session. In the variants a click on a square is rejected and leaves the
  session as it was under each of the three conditions (the turn condition through the
  \<^verbatim>\<open>disabled\<close> flag of the board in front of \<^verbatim>\<open>handleSquareClick\<close>), and a click that changes the
  session satisfies none of them; a click on an empty square under none of the
  conditions, the AI not thinking, does change the session.
\<close>

theorem placeMark_rejection:
  "(handleSquareClick idx s = Inl IllegalMoveError) = rejects idx s
   \<and> (step rnd (Click idx) s = s) = rejects idx s
   \<and> (rejects_grid i j g
        \<longrightarrow> squareOnClick i j g = Inl IllegalMoveError \<and> gstep (GClick i j) g = Some g)
   \<and> (gstep (GClick i j) g \<noteq> Some g \<longrightarrow> \<not> rejects_grid i j g)
   \<and> (\<not> rejects_grid i j g \<and> \<not> aiThinking g \<and> i < length (gboard g) \<and> j < length (gboard g ! i)
        \<longrightarrow> gstep (GClick i j) g \<noteq> Some g)"
  using handleSquareClick_rejects [of idx s] step_Click_same [of rnd idx s]
    squareOnClick_rejects [of i j g] gstep_Click_rejected [of i j g]
    gstep_Click_changes [of i j g]
  by blast

text \<open>
  The theorem at a session where X holds square 0 and square 2 is empty: the click on
  square 0 is rejected, in App.js and in the variants; the click on \<open>(0, 2)\<close> changes the
  session of the variants.
\<close>

theorem placeMark_rejection_witness:
  "rejects 0 midSession
   \<and> handleSquareClick 0 midSession = Inl IllegalMoveError
   \<and> step (0, 0) (Click 0) midSession = midSession
   \<and> rejects_grid 0 0 midSession_grid
   \<and> squareOnClick 0 0 midSession_grid = Inl IllegalMoveError
   \<and> gstep (GClick 0 0) midSession_grid = Some midSession_grid
   \<and> gstep (GClick 0 2) midSession_grid \<noteq> Some midSession_grid
   \<and> \<not> rejects_grid 0 2 midSession_grid \<and> \<not> aiThinking midSession_grid
   \<and> 0 < length (gboard midSession_grid) \<and> 2 < length (gboard midSession_grid ! 0)"
proof -
  have a: "rejects 0 midSession" "rejects_grid 0 0 midSession_grid"
    by (simp_all add: midSession_def midSession_grid_def midGame_def midGame_grid_def
        rejects_def rejects_grid_def at_def)
  have b: "gstep (GClick 0 2) midSession_grid \<noteq> Some midSession_grid"
    by code_simp
  have c: "\<not> aiThinking midSession_grid" "0 < length (gboard midSession_grid)"
    "2 < length (gboard midSession_grid ! 0)"
    by (simp_all add: midSession_grid_def midGame_grid_def)
  show ?thesis
    using placeMark_rejection [of 0 midSession "(0, 0)" 0 0 midSession_grid]
      placeMark_rejection [of 0 midSession "(0, 0)" 0 2 midSession_grid] a b c
    by simp
qed

text \<open>
  Claim C3, as the code has it. After every accepted placement the turn has flipped,
  whether the recomputed outcome is still in progress or is a win or a draw (the
  handlers flip it unconditionally); consequently after N consecutive accepted
  placements the turn has flipped exactly N times. In App.js and in the variants.
\<close>

theorem turn_flips:
  "(\<not> rejects idx s \<longrightarrow> isXNext (step rnd (Click idx) s) = (\<not> isXNext s))
   \<and> (placeAll cs s = Some s'
        \<longrightarrow> isXNext s' = (if even (length cs) then isXNext s else \<not> isXNext s))
   \<and> (squareOnClick i j g = Inr g1
        \<longrightarrow> (\<exists>g'. gstep (GClick i j) g = Some g' \<and> xIsNext g' = (\<not> xIsNext g)))"
  using step_Click_turn [of idx s rnd] placeAll_turn [of cs s s'] gstep_Click_accepted [of i j g g1]
  by blast

text \<open>
  The theorem at a session where squares 2 and 5 are empty and X is to move: the click
  on square 2 is accepted and flips the turn, and after the two placements on squares 5
  and 2 it is X's turn again; in the variants the click on \<open>(0, 2)\<close> flips the turn.
\<close>

theorem turn_flips_witness:
  "\<not> rejects 2 midSession
   \<and> isXNext midSession \<and> \<not> isXNext (step (0, 0) (Click 2) midSession)
   \<and> placeAll [((0, 0), 5), ((0, 0), 2)] midSession \<noteq> None
   \<and> isXNext (the (placeAll [((0, 0), 5), ((0, 0), 2)] midSession))
   \<and> squareOnClick 0 2 midSession_grid \<noteq> Inl IllegalMoveError
   \<and> xIsNext midSession_grid \<and> \<not> xIsNext (the (gstep (GClick 0 2) midSession_grid))"
proof -
  have a: "\<not> rejects 2 midSession"
    by (simp add: midSession_def midGame_def rejects_def at_def)
  have "placeAll [((0, 0), 5), ((0, 0), 2)] midSession \<noteq> None"
    by code_simp
  then obtain s' where b: "placeAll [((0, 0), 5), ((0, 0), 2)] midSession = Some s'"
    by blast
  have "squareOnClick 0 2 midSession_grid \<noteq> Inl IllegalMoveError"
    by code_simp
  then obtain g1 where c: "squareOnClick 0 2 midSession_grid = Inr g1"
    by (cases "squareOnClick 0 2 midSession_grid") (auto intro: error.exhaust)
  have d: "isXNext midSession" "xIsNext midSession_grid"
    by (simp_all add: midSession_def midSession_grid_def)
  show ?thesis
    using turn_flips [of 2 midSession "(0, 0)" "[((0, 0), 5), ((0, 0), 2)]" s' 0 2 midSession_grid g1]
      a b c d
    by auto
qed

text \<open>
  The claim as stated, "the turn has flipped if and only if the recomputed outcome is
  still in progress", fails: X completes the top row with square 2, the status becomes
  a win of X, and the turn has flipped to O.
\<close>

theorem turn_flips_counterexample:
  "handleSquareClick 2 midSession \<noteq> Inl IllegalMoveError
   \<and> isXNext midSession
   \<and> status (step (0, 0) (Click 2) midSession) = Win
   \<and> winner (step (0, 0) (Click 2) midSession) = Some PlayerX
   \<and> \<not> isXNext (step (0, 0) (Click 2) midSession)"
  by code_simp

text \<open>
  Claim C7. Whatever the session, the reset of App.js leaves the mode and gives the empty
  board, X to move, status ongoing and no winner, and its mode change sets the mode and
  does the same; in the variants \<^verbatim>\<open>resetGame\<close>, the reset button and a change of mode give
  the initial session of the mode, with no timer pending.
\<close>

theorem reset_fresh:
  "step rnd Reset s = (initial (mode s))\<lparr>timers := timers s\<rparr>
   \<and> step rnd (ModeChange m) s = (initial m)\<lparr>timers := timers s\<rparr>
   \<and> settle 4 g True (resetGame g) = Some (initial_grid (gmode g))
   \<and> (\<not> aiThinking g \<longrightarrow> gstep GReset g = Some (initial_grid (gmode g)))
   \<and> (\<not> aiThinking g \<and> m' \<noteq> gmode g \<longrightarrow> gstep (GSetMode m') g = Some (initial_grid m'))"
  by (cases s)
     (simp add: step_Reset step_ModeChange handleReset_def initial_def settle_reset settle_setMode
       initial_grid_def gstep_def)

text \<open>The theorem at a session of the variants in local mode, changed to the AI mode.\<close>

theorem reset_fresh_witness:
  "\<not> aiThinking midSession_grid \<and> MODE_AI \<noteq> gmode midSession_grid
   \<and> gstep GReset midSession_grid = Some (initial_grid MODE_LOCAL)
   \<and> gstep (GSetMode MODE_AI) midSession_grid = Some (initial_grid MODE_AI)
   \<and> step (0, 0) Reset midSession = initial Two
   \<and> step (0, 0) (ModeChange Ai) midSession = initial Ai"
  using reset_fresh [of "(0, 0)" midSession Ai midSession_grid MODE_AI]
  by (simp add: midSession_def midSession_grid_def initial_def)

text \<open>
  Claim C5 fails in App.js, whose AI effect schedules its callback with \<^verbatim>\<open>setTimeout\<close> and
  never cancels it. In a session against the AI, X clicks square 0, the AI effect
  schedules the move to the center, and the reset arrives before the timer expires:
  the reset empties the board and leaves the timer pending; when the timer expires its
  callback sets the board it closed over, so the session is no longer the initial one:
  the X of the game before the reset and the O of the pending move are on the board.
  The same happens when the mode is changed instead.
\<close>

theorem reset_leaves_timer_pending:
  "run (initial Ai) [((0, 0), Click 0), ((0, 0), Reset)]
     = (initial Ai)\<lparr>timers := [[Some PlayerX, None, None, None, Some PlayerO, None, None, None, None]]\<rparr>
   \<and> run (initial Ai) [((0, 0), Click 0), ((0, 0), Reset), ((0, 0), Timeout)]
     = (initial Ai)\<lparr>board := [Some PlayerX, None, None, None, Some PlayerO, None, None, None, None]\<rparr>
   \<and> run (initial Ai) [((0, 0), Click 0), ((0, 0), ModeChange Two), ((0, 0), Timeout)]
     = (initial Two)\<lparr>board := [Some PlayerX, None, None, None, Some PlayerO, None, None, None, None]\<rparr>"
  by code_simp

text \<open>
  The variants do cancel: the cleanup of their AI effect clears the timer when
  \<^verbatim>\<open>resetGame\<close> has replaced the board, and an expiry after that finds no timer.
\<close>

lemma resetGame_cancels:
  "settle 4 g True (resetGame g) = Some g' \<Longrightarrow> aiDelay g' = None \<and> gstep (GTimeout rnd) g' = Some g'"
  by (auto simp add: settle_reset gstep_def)

section \<open>Copy on write\<close>

lemma slice_store:
  "store (fst (slice h a)) (snd (slice h a)) i v = h @ [put (h ! a) i v]"
  by (simp add: slice_def store_def)

lemma tryMark_heap_frame:
  "squares < length h \<Longrightarrow> tryMark_heap m squares es h = (r, h') \<Longrightarrow>
   take (length h) h' = h \<and> length h \<le> length h' \<and> r = tryMark m (h ! squares) es"
proof (induction es arbitrary: h)
  case Nil
  then show ?case by simp
next
  case (Cons idx rest)
  let ?h2 = "h @ [put (h ! squares) idx (Some m)]"
  show ?case
  proof (cases "calculateWinner (put (h ! squares) idx (Some m)) = Some m")
    case True
    with Cons.prems show ?thesis
      by (auto simp add: slice_def store_def)
  next
    case False
    with Cons.prems have t: "tryMark_heap m squares rest ?h2 = (r, h')"
      by (simp add: slice_def store_def)
    from Cons.prems(1) have s: "squares < length ?h2" "?h2 ! squares = h ! squares"
      by (simp_all add: nth_append)
    from Cons.IH [OF s(1) t]
    have i: "take (length ?h2) h' = ?h2" "length ?h2 \<le> length h'" "r = tryMark m (h ! squares) rest"
      by (simp_all add: s(2))
    have "take (length h) h' = take (length h) (take (length ?h2) h')"
      by (simp add: min_def)
    also have "\<dots> = h" by (simp only: i(1)) simp
    finally show ?thesis using i False by simp
  qed
qed

lemma getAIMove_heap_frame:
  assumes "squares < length h" "getAIMove_heap squares rnd h = (r, h')"
  shows "take (length h) h' = h \<and> r = getAIMove (h ! squares) rnd"
proof -
  let ?es = "emptyIndices (h ! squares)"
  obtain r1 h1 where t1: "tryMark_heap PlayerO squares ?es h = (r1, h1)"
    by (cases "tryMark_heap PlayerO squares ?es h")
  from tryMark_heap_frame [OF assms(1) t1]
  have f1: "take (length h) h1 = h" "length h \<le> length h1" "tryMark PlayerO (h ! squares) ?es = r1"
    by simp_all
  show ?thesis
  proof (cases r1)
    case (Some idx)
    have "getAIMove_heap squares rnd h = (Some idx, h1)"
      by (simp add: getAIMove_heap_def Let_def t1 Some)
    moreover have "getAIMove (h ! squares) rnd = Some idx"
      by (simp add: getAIMove_def Let_def f1(3) Some)
    ultimately show ?thesis using assms(2) f1(1) by simp
  next
    case None
    from f1(2) assms(1) have s1: "squares < length h1" by simp
    have "h1 ! squares = take (length h) h1 ! squares"
      using assms(1) by simp
    then have s2: "h1 ! squares = h ! squares" by (simp only: f1(1))
    obtain r2 h2 where t2: "tryMark_heap PlayerX squares ?es h1 = (r2, h2)"
      by (cases "tryMark_heap PlayerX squares ?es h1")
    from tryMark_heap_frame [OF s1 t2]
    have f2: "take (length h1) h2 = h1" "tryMark PlayerX (h ! squares) ?es = r2"
      by (simp_all add: s2)
    have "take (length h) h2 = take (length h) (take (length h1) h2)"
      using f1(2) by (simp add: min_def)
    also have "\<dots> = h" by (simp only: f2(1) f1(1))
    finally have k: "take (length h) h2 = h" .
    have "getAIMove_heap squares rnd h =
            (case r2 of Some idx \<Rightarrow> Some idx
             | None \<Rightarrow> if 4 \<in> set ?es then Some 4 else if ?es \<noteq> [] then Some (?es ! rnd) else None, h2)"
      by (cases r2) (simp_all add: getAIMove_heap_def Let_def t1 None t2)
    moreover have "getAIMove (h ! squares) rnd =
            (case r2 of Some idx \<Rightarrow> Some idx
             | None \<Rightarrow> if 4 \<in> set ?es then Some 4 else if ?es \<noteq> [] then Some (?es ! rnd) else None)"
      by (cases r2) (simp_all add: getAIMove_def Let_def f1(3) None f2(2))
    ultimately show ?thesis using assms(2) k by simp
  qed
qed

lemma place_heap_frame:
  "place_heap b idx m h = (nextBoard, h') \<Longrightarrow>
   take (length h) h' = h \<and> nextBoard = length h \<and> h' ! nextBoard = put (h ! b) idx (Some m)"
  by (auto simp add: place_heap_def slice_def store_def)

lemma copyRows_eq:
  "\<forall>a\<in>set as. a < length rs \<Longrightarrow>
   copyRows as rs = ([length rs..<length rs + length as], rs @ map (\<lambda>a. rs ! a) as)"
proof (induction as arbitrary: rs)
  case Nil
  then show ?case by simp
next
  case (Cons a as)
  then have b: "\<forall>x\<in>set as. x < length (rs @ [rs ! a])" by auto
  have m: "map (\<lambda>x. (rs @ [rs ! a]) ! x) as = map (\<lambda>x. rs ! x) as"
    using Cons.prems by (auto simp add: nth_append)
  have u: "[length rs..<length rs + length (a # as)]
           = length rs # [length (rs @ [rs ! a])..<length (rs @ [rs ! a]) + length as]"
    by (simp add: upt_conv_Cons del: upt_Suc)
  show ?case
    unfolding copyRows.simps Cons.IH [OF b] m u by simp
qed

lemma setCell_heap_frame:
  assumes "list_all (\<lambda>a. a < length (fst h)) (snd h ! prev)" "i < length (snd h ! prev)"
    and "setCell_heap prev i j v h = (next, h')"
  shows "take (length (fst h)) (fst h') = fst h \<and> take (length (snd h)) (snd h') = snd h
       \<and> next = length (snd h)
       \<and> contents h' next = setCell (contents h prev) i j v"
proof -
  let ?rs = "fst h" and ?as = "snd h ! prev"
  let ?n = "length ?rs"
  let ?rs1 = "?rs @ map (\<lambda>a. ?rs ! a) ?as"
  let ?rs2 = "?rs1[?n + i := (?rs ! (?as ! i))[j := v]]"
  have c: "copyRows ?as ?rs = ([?n..<?n + length ?as], ?rs1)"
    using assms(1) by (intro copyRows_eq) (simp add: list_all_iff)
  have r: "?rs1 ! (?n + i) = ?rs ! (?as ! i)"
    using assms(2) by (simp add: nth_append)
  have k: "[?n..<?n + length ?as] ! i = ?n + i"
    using assms(2) by simp
  have "setCell_heap prev i j v h = (length (snd h), (?rs2, snd h @ [[?n..<?n + length ?as]]))"
    unfolding setCell_heap_def c prod.case k r ..
  with assms(3) [symmetric]
  have e: "(next, h') = (length (snd h), (?rs2, snd h @ [[?n..<?n + length ?as]]))"
    by (rule trans)
  have h': "next = length (snd h)" "h' = (?rs2, snd h @ [[?n..<?n + length ?as]])"
    using e [THEN arg_cong [where f = fst]] e [THEN arg_cong [where f = snd]]
    by (simp_all only: fst_conv snd_conv)
  have "contents h' next = map (\<lambda>a. ?rs2 ! a) [?n..<?n + length ?as]"
    by (simp add: h' contents_def)
  also have "\<dots> = (map (\<lambda>a. ?rs ! a) ?as)[i := (?rs ! (?as ! i))[j := v]]"
  proof (rule nth_equalityI)
    show "length (map (\<lambda>a. ?rs2 ! a) [?n..<?n + length ?as])
        = length ((map (\<lambda>a. ?rs ! a) ?as)[i := (?rs ! (?as ! i))[j := v]])"
      by simp
  next
    fix x
    assume "x < length (map (\<lambda>a. ?rs2 ! a) [?n..<?n + length ?as])"
    then have x: "x < length ?as" by simp
    then have "map (\<lambda>a. ?rs2 ! a) [?n..<?n + length ?as] ! x = ?rs2 ! (?n + x)"
      by simp
    also have "\<dots> = (if i = x then (?rs ! (?as ! i))[j := v] else ?rs ! (?as ! x))"
      using x assms(2) by (simp add: nth_list_update nth_append)
    also have "\<dots> = (map (\<lambda>a. ?rs ! a) ?as)[i := (?rs ! (?as ! i))[j := v]] ! x"
      using x by (simp add: nth_list_update)
    finally show "map (\<lambda>a. ?rs2 ! a) [?n..<?n + length ?as] ! x
        = (map (\<lambda>a. ?rs ! a) ?as)[i := (?rs ! (?as ! i))[j := v]] ! x" .
  qed
  also have "\<dots> = setCell (contents h prev) i j v"
    using assms(2) by (simp add: setCell_def contents_def)
  finally show ?thesis
    by (simp add: h')
qed

text \<open>
  Claim C6. With the boards on a heap, a placement (of either mark, as
  \<^verbatim>\<open>handleSquareClick\<close> and the AI effect do it) and the hypothetical placements inside
  \<^verbatim>\<open>getAIMove\<close> leave every array that existed before as it was, the board they were
  given included: the writes go to arrays allocated by the operation itself. The new
  board of a placement is a fresh array that holds the old cells and the mark, and
  \<^verbatim>\<open>getAIMove\<close> on the heap returns what the function on board values returns. The
  placement of the variants copies every row before it writes: the rows and the boards
  that existed before are as they were, and the new board holds the updated value.
\<close>

theorem copy_on_write:
  assumes "b < length h"
  shows "(place_heap b idx m h = (nextBoard, h')
           \<longrightarrow> take (length h) h' = h \<and> h' ! b = h ! b \<and> nextBoard = length h
               \<and> h' ! nextBoard = put (h ! b) idx (Some m))
       \<and> (getAIMove_heap b rnd h = (r, h'')
           \<longrightarrow> take (length h) h'' = h \<and> h'' ! b = h ! b \<and> r = getAIMove (h ! b) rnd)
       \<and> (list_all (\<lambda>a. a < length (fst hg)) (snd hg ! prev) \<and> i < length (snd hg ! prev)
            \<and> setCell_heap prev i j v hg = (next, hg')
           \<longrightarrow> take (length (fst hg)) (fst hg') = fst hg \<and> take (length (snd hg)) (snd hg') = snd hg
               \<and> next = length (snd hg)
               \<and> contents hg' next = setCell (contents hg prev) i j v)"
proof -
  have "h1 ! b = h ! b" if "take (length h) h1 = h" for h1
  proof -
    have "h1 ! b = take (length h) h1 ! b" using assms by simp
    with that show ?thesis by simp
  qed
  then show ?thesis
    using place_heap_frame [of b idx m h nextBoard h'] getAIMove_heap_frame [OF assms, of rnd r h'']
      setCell_heap_frame [of hg prev i j v "next" hg']
    by blast
qed

text \<open>
  The theorem at a heap that holds one board: X is placed on square 2, and the policy
  is run on the board; and at a heap of the variants that holds one board, where X is
  placed on \<open>(0, 2)\<close>.
\<close>

theorem copy_on_write_witness:
  "(0::nat) < length [midGame]
   \<and> place_heap 0 2 PlayerX [midGame] = (1, [midGame, topRowX])
   \<and> take (length [midGame]) (snd (place_heap 0 2 PlayerX [midGame])) = [midGame]
   \<and> take (length [midGame]) (snd (getAIMove_heap 0 0 [midGame])) = [midGame]
   \<and> fst (getAIMove_heap 0 0 [midGame]) = getAIMove ([midGame] ! 0) 0
   \<and> fst (getAIMove_heap 0 0 [midGame]) = Some 5
   \<and> list_all (\<lambda>a. a < length midGame_grid) [0, 1, 2] \<and> (0::nat) < length [0, 1, 2 :: nat]
   \<and> setCell_heap 0 0 2 (Some PlayerX) (midGame_grid, [[0, 1, 2]])
       = (1, (midGame_grid @ topRowX_grid, [[0, 1, 2], [3, 4, 5]]))
   \<and> take (length midGame_grid) (midGame_grid @ topRowX_grid) = midGame_grid
   \<and> contents (midGame_grid @ topRowX_grid, [[0, 1, 2], [3, 4, 5]]) 1
       = setCell (contents (midGame_grid, [[0, 1, 2]]) 0) 0 2 (Some PlayerX)"
proof -
  let ?p = "place_heap 0 2 PlayerX [midGame]"
  let ?g = "getAIMove_heap 0 0 [midGame]"
  have l: "(0::nat) < length [midGame]"
    by simp
  have a: "?p = (1, [midGame, topRowX])"
    by code_simp
  have b: "fst ?g = Some 5"
    by code_simp
  have p: "?p = (fst ?p, snd ?p)" and g: "?g = (fst ?g, snd ?g)"
    by simp_all
  have v: "list_all (\<lambda>a. a < length midGame_grid) [0, 1, 2]" "(0::nat) < length [0, 1, 2 :: nat]"
    by (simp_all add: midGame_grid_def)
  have s: "setCell_heap 0 0 2 (Some PlayerX) (midGame_grid, [[0, 1, 2]])
       = (1, (midGame_grid @ topRowX_grid, [[0, 1, 2], [3, 4, 5]]))"
    by code_simp
  from copy_on_write [OF l, of 2 PlayerX "fst ?p" "snd ?p" 0 "fst ?g" "snd ?g"
      "(midGame_grid, [[0, 1, 2]])" 0 0 2 "Some PlayerX" 1
      "(midGame_grid @ topRowX_grid, [[0, 1, 2], [3, 4, 5]])"] p g v s
  have c: "take (length [midGame]) (snd ?p) = [midGame]" "take (length [midGame]) (snd ?g) = [midGame]"
    "fst ?g = getAIMove ([midGame] ! 0) 0"
    "take (length midGame_grid) (midGame_grid @ topRowX_grid) = midGame_grid"
    "contents (midGame_grid @ topRowX_grid, [[0, 1, 2], [3, 4, 5]]) 1
       = setCell (contents (midGame_grid, [[0, 1, 2]]) 0) 0 2 (Some PlayerX)"
    by simp_all
  show ?thesis
    by (intro conjI) (rule l a b c v s)+
qed

section \<open>Games against the AI\<close>

















text \<open>
  An observation on App.js. The AI effect that runs in the render after a click reads
  the status of the render before, so after the click that wins the game for the human
  it still finds the status ongoing and schedules a move. Below X completes the bottom
  row with square 7 and the status becomes the win of X; the move that the AI scheduled
  in the same render completes the middle row, and once it is on the board the status
  effect, which scans the rows from the top, reports O as the winner.
\<close>

lemma move_after_win:
  "status (run (initial Ai)
      [((0, 0), Click 0), ((0, 0), Timeout), ((1, 0), Click 8), ((0, 0), Timeout),
       ((0, 0), Click 6), ((0, 0), Timeout), ((0, 0), Click 7)]) = Win
   \<and> winner (run (initial Ai)
      [((0, 0), Click 0), ((0, 0), Timeout), ((1, 0), Click 8), ((0, 0), Timeout),
       ((0, 0), Click 6), ((0, 0), Timeout), ((0, 0), Click 7)]) = Some PlayerX
   \<and> winner (run (initial Ai)
      [((0, 0), Click 0), ((0, 0), Timeout), ((1, 0), Click 8), ((0, 0), Timeout),
       ((0, 0), Click 6), ((0, 0), Timeout), ((0, 0), Click 7), ((0, 0), Timeout)]) = Some PlayerO
   \<and> board (run (initial Ai)
      [((0, 0), Click 0), ((0, 0), Timeout), ((1, 0), Click 8), ((0, 0), Timeout),
       ((0, 0), Click 6), ((0, 0), Timeout), ((0, 0), Click 7), ((0, 0), Timeout)])
     = [Some PlayerX, None, Some PlayerO,
        Some PlayerO, Some PlayerO, Some PlayerO,
        Some PlayerX, Some PlayerX, Some PlayerX]"
  by code_simp

text \<open>
  An observation on the variants. After the click that wins the game for the human in
  the AI mode, the winner effect clears \<^verbatim>\<open>aiThinking\<close> and the AI effect, which still
  reads no winner, sets it and schedules its timer; the next render cancels the timer,
  whose callback alone would clear the flag. The flag stays set, and with it the reset
  and mode buttons stay disabled.
\<close>

lemma thinking_after_win:
  "gstep (GClick 0 2) (midSession_grid\<lparr>gmode := MODE_AI\<rparr>)
     = Some \<lparr>gmode = MODE_AI, gboard = topRowX_grid, xIsNext = False,
             gwinner = Some (Won PlayerX), aiThinking = True, aiDelay = None\<rparr>
   \<and> gstep GReset
        \<lparr>gmode = MODE_AI, gboard = topRowX_grid, xIsNext = False,
           gwinner = Some (Won PlayerX), aiThinking = True, aiDelay = None\<rparr>
     = Some \<lparr>gmode = MODE_AI, gboard = topRowX_grid, xIsNext = False,
             gwinner = Some (Won PlayerX), aiThinking = True, aiDelay = None\<rparr>"
  by code_simp





end
